theory Spec2Isabelle
  imports Complex_Main "HOL-Library.AList" "HOL-Library.Multiset"
begin

section \<open>Floating-point values\<close>

text \<open>
  The program computes with IEEE double-precision numbers (Python \<^verbatim>\<open>float\<close>, numpy
  \<^verbatim>\<open>float64\<close>).  They are modelled as the real numbers extended by the two infinities and
  the not-a-number marker.  Rounding of finite results is not modelled and the sign of zero is
  not tracked; every special-value rule of the IEEE operations the program uses (an invalid
  operation gives \<open>NaN\<close>, division of a non-zero number by zero gives an infinity, a comparison
  with \<open>NaN\<close> is false) is written out.
\<close>

datatype fl = NaN | NInf | Fin real | PInf

fun isnan :: "fl \<Rightarrow> bool" where
  "isnan NaN = True"
| "isnan _ = False"

fun fl_lt :: "fl \<Rightarrow> fl \<Rightarrow> bool" where
  "fl_lt NaN _ = False"
| "fl_lt _ NaN = False"
| "fl_lt _ NInf = False"
| "fl_lt NInf _ = True"
| "fl_lt PInf _ = False"
| "fl_lt (Fin a) (Fin b) = (a < b)"
| "fl_lt (Fin a) PInf = True"

fun fl_le :: "fl \<Rightarrow> fl \<Rightarrow> bool" where
  "fl_le NaN _ = False"
| "fl_le _ NaN = False"
| "fl_le NInf _ = True"
| "fl_le _ PInf = True"
| "fl_le PInf _ = False"
| "fl_le (Fin a) (Fin b) = (a \<le> b)"
| "fl_le (Fin a) NInf = False"

definition fl_gt :: "fl \<Rightarrow> fl \<Rightarrow> bool" where
  "fl_gt a b = fl_lt b a"

fun fl_neg :: "fl \<Rightarrow> fl" where
  "fl_neg NaN = NaN"
| "fl_neg NInf = PInf"
| "fl_neg PInf = NInf"
| "fl_neg (Fin a) = Fin (- a)"

fun fl_add :: "fl \<Rightarrow> fl \<Rightarrow> fl" where
  "fl_add NaN _ = NaN"
| "fl_add _ NaN = NaN"
| "fl_add PInf NInf = NaN"
| "fl_add NInf PInf = NaN"
| "fl_add PInf _ = PInf"
| "fl_add _ PInf = PInf"
| "fl_add NInf _ = NInf"
| "fl_add _ NInf = NInf"
| "fl_add (Fin a) (Fin b) = Fin (a + b)"

definition fl_sub :: "fl \<Rightarrow> fl \<Rightarrow> fl" where
  "fl_sub a b = fl_add a (fl_neg b)"

text \<open>The sign of an infinity multiplied or divided by a finite number.\<close>

definition signed_inf :: "bool \<Rightarrow> fl" where
  "signed_inf positive = (if positive then PInf else NInf)"

fun fl_mul :: "fl \<Rightarrow> fl \<Rightarrow> fl" where
  "fl_mul NaN _ = NaN"
| "fl_mul _ NaN = NaN"
| "fl_mul (Fin a) (Fin b) = Fin (a * b)"
| "fl_mul (Fin a) PInf = (if a = 0 then NaN else signed_inf (0 < a))"
| "fl_mul (Fin a) NInf = (if a = 0 then NaN else signed_inf (a < 0))"
| "fl_mul PInf (Fin b) = (if b = 0 then NaN else signed_inf (0 < b))"
| "fl_mul NInf (Fin b) = (if b = 0 then NaN else signed_inf (b < 0))"
| "fl_mul PInf PInf = PInf"
| "fl_mul NInf NInf = PInf"
| "fl_mul PInf NInf = NInf"
| "fl_mul NInf PInf = NInf"

text \<open>
  Division as numpy and pandas perform it on \<^verbatim>\<open>float64\<close> data: no exception is raised,
  \<open>0/0\<close> and \<open>\<infinity>/\<infinity>\<close> are \<open>NaN\<close>, a non-zero number over zero is an infinity.
\<close>

fun fl_div :: "fl \<Rightarrow> fl \<Rightarrow> fl" where
  "fl_div NaN _ = NaN"
| "fl_div _ NaN = NaN"
| "fl_div (Fin a) (Fin b) =
     (if b = 0 then (if a = 0 then NaN else signed_inf (0 < a)) else Fin (a / b))"
| "fl_div (Fin a) PInf = Fin 0"
| "fl_div (Fin a) NInf = Fin 0"
| "fl_div PInf (Fin b) = signed_inf (0 \<le> b)"
| "fl_div NInf (Fin b) = signed_inf (b < 0)"
| "fl_div PInf PInf = NaN"
| "fl_div PInf NInf = NaN"
| "fl_div NInf PInf = NaN"
| "fl_div NInf NInf = NaN"

text \<open>\<^verbatim>\<open>np.log\<close> and \<^verbatim>\<open>np.sqrt\<close>.\<close>

fun fl_log :: "fl \<Rightarrow> fl" where
  "fl_log NaN = NaN"
| "fl_log NInf = NaN"
| "fl_log PInf = PInf"
| "fl_log (Fin a) = (if a < 0 then NaN else if a = 0 then NInf else Fin (ln a))"

fun fl_sqrt :: "fl \<Rightarrow> fl" where
  "fl_sqrt NaN = NaN"
| "fl_sqrt NInf = NaN"
| "fl_sqrt PInf = PInf"
| "fl_sqrt (Fin a) = (if a < 0 then NaN else Fin (sqrt a))"


section \<open>Series operations\<close>

text \<open>
  A pandas \<^verbatim>\<open>Series\<close> of floats is the list of its values in index order.  All series
  combined elementwise by \<^verbatim>\<open>rsi\<close> and \<^verbatim>\<open>annual_vol\<close> carry the same index, so alignment
  is by position.
\<close>

definition dropna :: "fl list \<Rightarrow> fl list" where
  "dropna s = filter (\<lambda>x. \<not> isnan x) s"

text \<open>\<^verbatim>\<open>s.shift(1)\<close>: every value moves one position down, the first becomes \<open>NaN\<close>.\<close>

definition shift1 :: "fl list \<Rightarrow> fl list" where
  "shift1 s = (if s = [] then [] else NaN # butlast s)"

text \<open>\<^verbatim>\<open>s.diff()\<close> is \<^verbatim>\<open>s - s.shift(1)\<close>.\<close>

definition diff :: "fl list \<Rightarrow> fl list" where
  "diff s = map2 fl_sub s (shift1 s)"

text \<open>\<^verbatim>\<open>clip\<close> replaces the values beyond the threshold by it and leaves \<open>NaN\<close> alone.\<close>

definition clip_lower :: "fl \<Rightarrow> fl list \<Rightarrow> fl list" where
  "clip_lower lo s = map (\<lambda>x. if fl_lt x lo then lo else x) s"

definition clip_upper :: "fl \<Rightarrow> fl list \<Rightarrow> fl list" where
  "clip_upper hi s = map (\<lambda>x. if fl_gt x hi then hi else x) s"

text \<open>
  \<^verbatim>\<open>s.ewm(alpha=a, adjust=False).mean()\<close>.  pandas first replaces the infinite values of the
  series by \<open>NaN\<close>, and then runs this loop (with \<^verbatim>\<open>ignore_na=False\<close> and no minimum number
  of periods): the running value \<open>weighted\<close> starts at the first element; a later
  observation \<open>cur\<close> replaces it by \<open>(old_wt * weighted + a * cur) / (old_wt + a)\<close>, where
  \<open>old_wt\<close> is \<open>1 - a\<close> per position since the previous observation; a \<open>NaN\<close> position
  repeats the running value.
\<close>

fun inf_as_nan :: "fl \<Rightarrow> fl" where
  "inf_as_nan PInf = NaN"
| "inf_as_nan NInf = NaN"
| "inf_as_nan x = x"

fun ewm_loop :: "real \<Rightarrow> fl \<Rightarrow> real \<Rightarrow> fl list \<Rightarrow> fl list" where
  "ewm_loop a weighted old_wt [] = []"
| "ewm_loop a weighted old_wt (cur # xs) =
     (if \<not> isnan weighted then
        (let old_wt' = old_wt * (1 - a) in
         if \<not> isnan cur then
           (let weighted' =
                  (if weighted \<noteq> cur
                   then fl_div (fl_add (fl_mul (Fin old_wt') weighted) (fl_mul (Fin a) cur))
                               (Fin (old_wt' + a))
                   else weighted)
            in weighted' # ewm_loop a weighted' 1 xs)
         else weighted # ewm_loop a weighted old_wt' xs)
      else cur # ewm_loop a cur old_wt xs)"

definition ewm_mean :: "real \<Rightarrow> fl list \<Rightarrow> fl list" where
  "ewm_mean a s =
     (case map inf_as_nan s of [] \<Rightarrow> [] | x # xs \<Rightarrow> x # ewm_loop a x 1 xs)"

section \<open>Financial helpers\<close>

definition RSI_PERIOD :: nat where
  "RSI_PERIOD = 14"

definition VOL_DAYS :: nat where
  "VOL_DAYS = 252"

definition N_CARDS :: nat where
  "N_CARDS = 10"

text \<open>The intermediate series of \<^verbatim>\<open>rsi\<close>, of a series that is already cleaned.\<close>

definition rsi_up :: "fl list \<Rightarrow> fl list" where
  "rsi_up s = clip_lower (Fin 0) (diff s)"

definition rsi_down :: "fl list \<Rightarrow> fl list" where
  "rsi_down s = map fl_neg (clip_upper (Fin 0) (diff s))"

definition avg_up :: "nat \<Rightarrow> fl list \<Rightarrow> fl list" where
  "avg_up period s = ewm_mean (1 / real period) (rsi_up s)"

definition avg_down :: "nat \<Rightarrow> fl list \<Rightarrow> fl list" where
  "avg_down period s = ewm_mean (1 / real period) (rsi_down s)"

definition rsi_period :: "nat \<Rightarrow> fl list \<Rightarrow> fl list" where
  "rsi_period period series =
     (let s = dropna series in
      if s = [] then s
      else
        let rs = map2 fl_div (avg_up period s) (avg_down period s)
        in map (\<lambda>x. fl_sub (Fin 100) (fl_div (Fin 100) (fl_add (Fin 1) x))) rs)"

text \<open>Every call of \<^verbatim>\<open>rsi\<close> in the program leaves the period at its default.\<close>

definition rsi :: "fl list \<Rightarrow> fl list" where
  "rsi series = rsi_period RSI_PERIOD series"

text \<open>
  \<^verbatim>\<open>Series.std(ddof=0)\<close> of a series without \<open>NaN\<close>, as pandas computes it: the mean, the sum
  of the squared deviations from it divided by the count, and the square root.
\<close>

definition fl_sum :: "fl list \<Rightarrow> fl" where
  "fl_sum xs = foldr fl_add xs (Fin 0)"

definition std_ddof0 :: "fl list \<Rightarrow> fl" where
  "std_ddof0 xs =
     (let count = Fin (real (length xs));
          avg = fl_div (fl_sum xs) count;
          sqr = map (\<lambda>x. let d = fl_sub avg x in fl_mul d d) xs
      in fl_sqrt (fl_div (fl_sum sqr) count))"

definition annual_vol :: "fl list \<Rightarrow> fl" where
  "annual_vol close_series =
     (let s = dropna close_series in
      if length s < 10 then NaN
      else
        let s = (if length s \<ge> VOL_DAYS then drop (length s - VOL_DAYS) s else s);
            log_ret = dropna (map fl_log (map2 fl_div s (shift1 s)))
        in if length log_ret < 2 then NaN
           else fl_mul (std_ddof0 log_ret) (Fin (sqrt 252)))"


section \<open>Price tables and the market-data provider\<close>

datatype exn = KeyError string | IndexError | ProviderError string

fun exn_str :: "exn \<Rightarrow> string" where
  "exn_str (KeyError k) = k"
| "exn_str IndexError = ''single positional indexer is out-of-bounds''"
| "exn_str (ProviderError m) = m"

text \<open>
  A \<^verbatim>\<open>DataFrame\<close> indexed by dates: its column labels and its rows in index order, each row a
  date (days since 1970-01-01) and its cell under every label.
\<close>

record frame =
  columns :: "string list"
  rows :: "(int \<times> (string \<Rightarrow> fl)) list"

definition empty_frame :: frame where
  "empty_frame = \<lparr>columns = [], rows = []\<rparr>"

definition frame_empty :: "frame \<Rightarrow> bool" where
  "frame_empty df = (columns df = [] \<or> rows df = [])"

definition column :: "string \<Rightarrow> frame \<Rightarrow> fl list" where
  "column c df = map (\<lambda>(d, r). r c) (rows df)"

text \<open>\<^verbatim>\<open>df.dropna(how='all')\<close> drops the rows whose cells are all missing.\<close>

definition dropna_all :: "frame \<Rightarrow> frame" where
  "dropna_all df =
     df\<lparr>rows := filter (\<lambda>(d, r). list_ex (\<lambda>c. \<not> isnan (r c)) (columns df)) (rows df)\<rparr>"

text \<open>
  \<^verbatim>\<open>df.resample('W').last()\<close>: one row for every calendar week (Monday to Sunday, labelled by
  its Sunday) from the week of the earliest row to the week of the latest one, holding under
  each label the last value of that week that is not missing, and \<open>NaN\<close> when the week has none.
  1970-01-01 was a Thursday.
\<close>

definition week_of :: "int \<Rightarrow> int" where
  "week_of d = (d + 3) div 7"

definition last_valid :: "fl list \<Rightarrow> fl" where
  "last_valid xs = (case rev (dropna xs) of [] \<Rightarrow> NaN | x # _ \<Rightarrow> x)"

definition resample_W_last :: "frame \<Rightarrow> frame" where
  "resample_W_last df =
     (let rs = sort_key fst (rows df) in
      case rs of
        [] \<Rightarrow> df\<lparr>rows := []\<rparr>
      | r0 # _ \<Rightarrow>
          df\<lparr>rows :=
               map (\<lambda>w. (7 * w + 3,
                          \<lambda>c. last_valid (map (\<lambda>(d, r). r c)
                                   (filter (\<lambda>(d, r). week_of d = w) rs))))
                   [week_of (fst r0) .. week_of (fst (last rs))]\<rparr>)"

text \<open>
  The provider (yfinance) is a parameter.  \<open>download\<close> is the batch call \<^verbatim>\<open>yf.download\<close> with a
  list of tickers; its result is used whole when there is one ticker and through \<^verbatim>\<open>raw[t]\<close>
  (\<open>sub\<close>) otherwise.  \<open>download_one\<close> is \<^verbatim>\<open>yf.download\<close> with one ticker and \<open>info\<close> is
  \<^verbatim>\<open>yf.Ticker(tk).info\<close>.  Each of them may raise.  The indexes the provider returns are dates
  already, so \<^verbatim>\<open>pd.to_datetime\<close> leaves them as they are.
\<close>

record raw_batch =
  whole :: frame
  sub :: "string \<Rightarrow> exn + frame"

record provider =
  download :: "string list \<Rightarrow> exn + raw_batch"
  download_one :: "string \<Rightarrow> exn + frame"
  info :: "string \<Rightarrow> exn + (string \<Rightarrow> string option)"

section \<open>Data fetch\<close>

text \<open>
  \<^verbatim>\<open>fetch_all\<close> returns the dictionary \<open>price_map\<close> (an association list in insertion order).
  The model also records the provider calls it makes and what it writes to the session state.
  The result cache around the function is not modelled: this is one evaluation of its body.
\<close>

datatype call = Batch "string list" | Single string

record fetched =
  price_map :: "(string \<times> frame) list"
  calls :: "call list"
  last_fetch_error :: "string option"

fun fetch_loop ::
  "provider \<Rightarrow> raw_batch \<Rightarrow> string list \<Rightarrow> (string \<times> frame) list \<times> call list
     \<Rightarrow> (string \<times> frame) list \<times> call list" where
  "fetch_loop p raw [] acc = acc"
| "fetch_loop p raw (t # ts) (out, cs) =
     (case sub raw t of
        Inr df \<Rightarrow> fetch_loop p raw ts (AList.update t (dropna_all df) out, cs)
      | Inl _ \<Rightarrow>
          (case download_one p t of
             Inr df2 \<Rightarrow> fetch_loop p raw ts (AList.update t df2 out, cs @ [Single t])
           | Inl _ \<Rightarrow> fetch_loop p raw ts (AList.update t empty_frame out, cs @ [Single t])))"

definition fetch_all :: "provider \<Rightarrow> string list \<Rightarrow> fetched" where
  "fetch_all p tickers =
     (case download p tickers of
        Inl e \<Rightarrow>
          \<lparr>price_map = [], calls = [Batch tickers], last_fetch_error = Some (exn_str e)\<rparr>
      | Inr raw \<Rightarrow>
          (case tickers of
             [t] \<Rightarrow>
               \<lparr>price_map = [(t, whole raw)], calls = [Batch tickers], last_fetch_error = None\<rparr>
           | _ \<Rightarrow>
               (let (out, cs) = fetch_loop p raw tickers ([], [Batch tickers])
                in \<lparr>price_map = out, calls = cs, last_fetch_error = None\<rparr>)))"


section \<open>Analysis: the least volatile tickers and their signals\<close>

definition NIFTY50 :: "string list" where
  "NIFTY50 =
     [''RELIANCE.NS'', ''TCS.NS'', ''HDFCBANK.NS'', ''INFY.NS'', ''ICICIBANK.NS'',
      ''KOTAKBANK.NS'', ''LT.NS'', ''ITC.NS'', ''SBIN.NS'', ''HCLTECH.NS'', ''AXISBANK.NS'',
      ''BHARTIARTL.NS'', ''BAJAJ-AUTO.NS'', ''ASIANPAINT.NS'', ''HINDUNILVR.NS'', ''MARUTI.NS'',
      ''SUNPHARMA.NS'', ''NTPC.NS'', ''M&M.NS'', ''BAJFINANCE.NS'', ''ULTRACEMCO.NS'',
      ''TITAN.NS'', ''POWERGRID.NS'', ''ONGC.NS'', ''HDFCLIFE.NS'', ''NESTLEIND.NS'',
      ''DIVISLAB.NS'', ''WIPRO.NS'', ''BRITANNIA.NS'', ''TECHM.NS'', ''COALINDIA.NS'',
      ''SBILIFE.NS'', ''ADANIENT.NS'', ''ADANIPORTS.NS'', ''TATASTEEL.NS'', ''BPCL.NS'',
      ''INDUSINDBK.NS'', ''GRASIM.NS'', ''EICHERMOT.NS'', ''JSWSTEEL.NS'', ''DRREDDY.NS'',
      ''TATAMOTORS.NS'', ''CIPLA.NS'', ''SHREECEM.NS'', ''HINDALCO.NS'']"

text \<open>The entries of \<^verbatim>\<open>PALETTE\<close> that the analysis uses.\<close>

definition PALETTE_green :: string where
  "PALETTE_green = ''#2ecc71''"

definition PALETTE_red :: string where
  "PALETTE_red = ''#e74c3c''"

definition PALETTE_yellow :: string where
  "PALETTE_yellow = ''#fff7cc''"

definition PALETTE_gray :: string where
  "PALETTE_gray = ''#95a5a6''"

text \<open>
  A stable ascending sort by a float key that compares keys with \<open><\<close> only.  It stands for
  \<^verbatim>\<open>list.sort(key=...)\<close>, which is stable, and for \<^verbatim>\<open>DataFrame.sort_values\<close> on the table of
  selected candidates, which has at most \<open>N_CARDS\<close> rows: on so short a column the default
  sort of numpy runs its insertion sort, which keeps equal keys in place.
\<close>

fun insort_by :: "('a \<Rightarrow> fl) \<Rightarrow> 'a \<Rightarrow> 'a list \<Rightarrow> 'a list" where
  "insort_by k x [] = [x]"
| "insort_by k x (y # ys) =
     (if fl_lt (k y) (k x) then y # insort_by k x ys else x # y # ys)"

definition sort_by :: "('a \<Rightarrow> fl) \<Rightarrow> 'a list \<Rightarrow> 'a list" where
  "sort_by k xs = foldr (insort_by k) xs []"

text \<open>The dictionaries appended to \<^verbatim>\<open>selected\<close>, and the rows of the table returned.\<close>

record candidate =
  ticker :: string
  company :: string
  daily_rsi :: fl
  weekly_rsi :: fl
  volatility :: fl
  series_daily :: "fl list"

record card = candidate +
  signal :: string
  color :: string
  cross :: bool

text \<open>\<^verbatim>\<open>round(x, 2)\<close>: to the nearest multiple of \<open>1/100\<close>, a tie to the even one.\<close>

definition round_half_even :: "real \<Rightarrow> int" where
  "round_half_even y =
     (let f = \<lfloor>y\<rfloor>; r = y - of_int f in
      if r < 1 / 2 then f else if 1 / 2 < r then f + 1 else if even f then f else f + 1)"

fun round2 :: "fl \<Rightarrow> fl" where
  "round2 (Fin x) = Fin (of_int (round_half_even (x * 100)) / 100)"
| "round2 x = x"

text \<open>\<^verbatim>\<open>series.iloc[-1]\<close> raises on an empty series.\<close>

definition iloc_last :: "fl list \<Rightarrow> exn + fl" where
  "iloc_last s = (if s = [] then Inl IndexError else Inr (last s))"

text \<open>\<^verbatim>\<open>a or b\<close> on an optional string: \<^verbatim>\<open>None\<close> and the empty string are false.\<close>

definition py_or :: "string option \<Rightarrow> string \<Rightarrow> string" where
  "py_or a b = (case a of None \<Rightarrow> b | Some x \<Rightarrow> if x = [] then b else x)"

definition company_name :: "provider \<Rightarrow> string \<Rightarrow> string" where
  "company_name p tk =
     (case info p tk of
        Inl _ \<Rightarrow> []
      | Inr i \<Rightarrow> py_or (i ''shortName'') (py_or (i ''longName'') []))"

definition unusable :: "frame \<Rightarrow> bool" where
  "unusable df = (frame_empty df \<or> ''Close'' \<notin> set (columns df))"

text \<open>\<^verbatim>\<open>d.get(k, default)\<close> on a dictionary held as an association list.\<close>

definition dict_get :: "('k \<times> 'v) list \<Rightarrow> 'k \<Rightarrow> 'v \<Rightarrow> 'v" where
  "dict_get m k d = (case map_of m k of None \<Rightarrow> d | Some v \<Rightarrow> v)"

text \<open>
  The body of the selection loop for one entry of \<open>vol_list\<close>: \<open>None\<close> when the ticker is
  skipped (\<^verbatim>\<open>continue\<close>), the dictionary appended otherwise.  The dictionary that
  \<open>fetch_all\<close> builds holds a table for every key, so the test \<^verbatim>\<open>df is None\<close> never fires.
\<close>

definition select_one ::
  "provider \<Rightarrow> (string \<times> frame) list \<Rightarrow> string \<times> fl \<Rightarrow> candidate option" where
  "select_one p pm e =
     (let tk = fst e; vol = snd e;
          df = dict_get pm tk empty_frame
      in if unusable df then None
         else
           let daily = dropna (column ''Close'' df) in
           if length daily < 40 then None
           else
             let weekly = dropna (column ''Close'' (resample_W_last df)) in
             if length weekly < 8 then None
             else
               (case iloc_last (rsi daily) of
                  Inl _ \<Rightarrow> None
                | Inr d \<Rightarrow>
                    (case iloc_last (rsi weekly) of
                       Inl _ \<Rightarrow> None
                     | Inr w \<Rightarrow>
                         Some \<lparr>ticker = tk, company = company_name p tk,
                               daily_rsi = round2 d, weekly_rsi = round2 w,
                               volatility = vol,
                               series_daily = drop (length daily - 40) daily\<rparr>)))"

fun select_loop ::
  "provider \<Rightarrow> (string \<times> frame) list \<Rightarrow> candidate list \<Rightarrow> (string \<times> fl) list
     \<Rightarrow> candidate list" where
  "select_loop p pm selected [] = selected"
| "select_loop p pm selected (e # es) =
     (if length selected \<ge> N_CARDS then selected
      else
        (case select_one p pm e of
           None \<Rightarrow> select_loop p pm selected es
         | Some c \<Rightarrow> select_loop p pm (selected @ [c]) es))"

text \<open>\<open>vol_list\<close> before it is sorted: the scored tickers, the undefined scores removed.\<close>

definition vol_scores :: "(string \<times> frame) list \<Rightarrow> (string \<times> fl) list" where
  "vol_scores pm =
     filter (\<lambda>x. \<not> isnan (snd x))
       (map (\<lambda>(tk, df). (tk, annual_vol (column ''Close'' df)))
          (filter (\<lambda>(tk, df). \<not> unusable df) pm))"

definition vol_list :: "(string \<times> frame) list \<Rightarrow> (string \<times> fl) list" where
  "vol_list pm = sort_by snd (vol_scores pm)"

definition selected :: "provider \<Rightarrow> (string \<times> frame) list \<Rightarrow> candidate list" where
  "selected p pm = select_loop p pm [] (vol_list pm)"

definition between :: "fl \<Rightarrow> bool" where
  "between x = (fl_le (Fin 40) x \<and> fl_le x (Fin 60))"

text \<open>The signal block for one row: label, colour and cross.\<close>

definition signal_of :: "fl \<Rightarrow> fl \<Rightarrow> string \<times> string \<times> bool" where
  "signal_of d w =
     (if fl_gt d (Fin 60) \<and> between w then (''Conflict'', PALETTE_gray, True)
      else if fl_gt w (Fin 60) \<and> between d then (''Conflict'', PALETTE_gray, True)
      else if fl_gt d (Fin 60) \<and> fl_gt w (Fin 60) then (''Buy'', PALETTE_green, False)
      else if fl_lt d (Fin 40) \<and> fl_lt w (Fin 40) then (''Sell'', PALETTE_red, False)
      else if between d \<and> between w then (''Neutral'', PALETTE_yellow, False)
      else (''Neutral'', PALETTE_yellow, False))"

definition with_signal :: "candidate \<Rightarrow> card" where
  "with_signal c =
     (case signal_of (daily_rsi c) (weekly_rsi c) of
        (l, col, x) \<Rightarrow>
          \<lparr>ticker = ticker c, company = company c, daily_rsi = daily_rsi c,
           weekly_rsi = weekly_rsi c, volatility = volatility c,
           series_daily = series_daily c, signal = l, color = col, cross = x\<rparr>)"

text \<open>
  The part of \<^verbatim>\<open>analyze_universe\<close> after the fetch.  \<^verbatim>\<open>pd.DataFrame(selected)\<close> of an empty
  list has no columns, and \<^verbatim>\<open>sort_values("volatility")\<close> raises \<^verbatim>\<open>KeyError\<close> on a table
  without that column.
\<close>

definition analyze :: "provider \<Rightarrow> (string \<times> frame) list \<Rightarrow> exn + card list" where
  "analyze p pm =
     (let sel = selected p pm in
      if sel = [] then Inl (KeyError ''volatility'')
      else
        let df = take N_CARDS (sort_by volatility sel) in
        if df = [] then Inr []
        else Inr (map with_signal df))"

definition analyze_universe :: "provider \<Rightarrow> exn + card list" where
  "analyze_universe p = analyze p (price_map (fetch_all p NIFTY50))"

section \<open>The filters of the selection, as specified\<close>

text \<open>
  A ticker of the dictionary survives all filters when its table is usable, its volatility is
  defined, it has at least 40 daily observations and at least 8 weekly ones.
\<close>

definition survives :: "string \<times> frame \<Rightarrow> bool" where
  "survives e =
     (\<not> unusable (snd e)
      \<and> \<not> isnan (annual_vol (column ''Close'' (snd e)))
      \<and> 40 \<le> length (dropna (column ''Close'' (snd e)))
      \<and> 8 \<le> length (dropna (column ''Close'' (resample_W_last (snd e)))))"

section \<open>The decision table of the signal classifier, as specified\<close>

text \<open>
  The five predicates of the specified table and its fallback, in priority order, and the
  evaluation rule "first match wins".  They are compared with \<open>signal_of\<close> below.
\<close>

definition rule1 :: "fl \<Rightarrow> fl \<Rightarrow> bool" where
  "rule1 d w = (fl_gt d (Fin 60) \<and> fl_le (Fin 40) w \<and> fl_le w (Fin 60))"

definition rule2 :: "fl \<Rightarrow> fl \<Rightarrow> bool" where
  "rule2 d w = (fl_gt w (Fin 60) \<and> fl_le (Fin 40) d \<and> fl_le d (Fin 60))"

definition rule3 :: "fl \<Rightarrow> fl \<Rightarrow> bool" where
  "rule3 d w = (fl_gt d (Fin 60) \<and> fl_gt w (Fin 60))"

definition rule4 :: "fl \<Rightarrow> fl \<Rightarrow> bool" where
  "rule4 d w = (fl_lt d (Fin 40) \<and> fl_lt w (Fin 40))"

definition rule5 :: "fl \<Rightarrow> fl \<Rightarrow> bool" where
  "rule5 d w =
     (fl_le (Fin 40) d \<and> fl_le d (Fin 60) \<and> fl_le (Fin 40) w \<and> fl_le w (Fin 60))"

definition decision_table :: "((fl \<Rightarrow> fl \<Rightarrow> bool) \<times> string) list" where
  "decision_table =
     [(rule1, ''Conflict''), (rule2, ''Conflict''), (rule3, ''Buy''), (rule4, ''Sell''),
      (rule5, ''Neutral''), (\<lambda>d w. True, ''Neutral'')]"

fun first_match ::
  "((fl \<Rightarrow> fl \<Rightarrow> bool) \<times> string) list \<Rightarrow> fl \<Rightarrow> fl \<Rightarrow> string option" where
  "first_match [] d w = None"
| "first_match ((P, l) # rest) d w = (if P d w then Some l else first_match rest d w)"

section \<open>Example providers\<close>

text \<open>A provider outage: every call raises.\<close>

definition outage :: provider where
  "outage =
     \<lparr>download = (\<lambda>ts. Inl (ProviderError ''no connection'')),
      download_one = (\<lambda>t. Inl (ProviderError ''no connection'')),
      info = (\<lambda>t. Inl (ProviderError ''no connection''))\<rparr>"

section \<open>Auxiliary functions on real numbers\<close>

text \<open>
  What the series operations compute on finite values: the successive differences, and the
  recursively smoothed average \<open>y\<^sub>0 = x\<^sub>0\<close>, \<open>y\<^sub>t = (1 - a) * y\<^sub>t\<^sub>-\<^sub>1 + a * x\<^sub>t\<close>.  They serve
  the proofs below.
\<close>

definition deltas :: "real list \<Rightarrow> real list" where
  "deltas ps = map2 (\<lambda>x y. x - y) (tl ps) ps"

fun ewma_from :: "real \<Rightarrow> real \<Rightarrow> real list \<Rightarrow> real list" where
  "ewma_from a w [] = []"
| "ewma_from a w (x # xs) = ((1 - a) * w + a * x) # ewma_from a ((1 - a) * w + a * x) xs"

definition ewma :: "real \<Rightarrow> real list \<Rightarrow> real list" where
  "ewma a xs = (case xs of [] \<Rightarrow> [] | x # xs' \<Rightarrow> x # ewma_from a x xs')"

definition rsi_value :: "real \<Rightarrow> real \<Rightarrow> fl" where
  "rsi_value u d =
     (if d = 0 then (if u = 0 then NaN else Fin 100) else Fin (100 - 100 / (1 + u / d)))"

text \<open>The up moves and the down moves of a series of finite prices.\<close>

definition ups :: "real list \<Rightarrow> real list" where
  "ups ps = map (max 0) (deltas ps)"

definition downs :: "real list \<Rightarrow> real list" where
  "downs ps = map (\<lambda>x. max 0 (- x)) (deltas ps)"

section \<open>The volatility contract, as specified\<close>

text \<open>
  The notions of the specified contract, written by position: the most recent \<open>n\<close>
  observations of a series that is longer than \<open>n\<close>, the log returns
  \<open>ln (price\<^sub>t / price\<^sub>t\<^sub>-\<^sub>1)\<close> from the second observation on (the first has no predecessor),
  and the population standard deviation, which divides by the number of values.
\<close>

definition recent :: "nat \<Rightarrow> 'a list \<Rightarrow> 'a list" where
  "recent n xs =
     (if n < length xs then map (\<lambda>i. xs ! (length xs - n + i)) [0..<n] else xs)"

definition fl_log_returns :: "fl list \<Rightarrow> fl list" where
  "fl_log_returns w = map (\<lambda>t. fl_log (fl_div (w ! t) (w ! (t - 1)))) [1..<length w]"

definition log_returns :: "real list \<Rightarrow> real list" where
  "log_returns w = map (\<lambda>t. ln (w ! t / w ! (t - 1))) [1..<length w]"

definition mean :: "real list \<Rightarrow> real" where
  "mean xs = sum_list xs / real (length xs)"

definition pop_std :: "real list \<Rightarrow> real" where
  "pop_std xs = sqrt ((\<Sum>x\<leftarrow>xs. (x - mean xs)\<^sup>2) / real (length xs))"

section \<open>Example tables and providers\<close>

text \<open>
  \<open>flat_frame n c\<close> has one \<^verbatim>\<open>Close\<close> column holding the price \<open>c\<close> on \<open>n\<close> consecutive
  calendar days from 1970-01-01 on.  \<open>weekday_frame n f\<close> holds the prices \<open>f 0, f 1, \<dots>\<close> on
  \<open>n\<close> consecutive trading days, Monday to Friday, from Monday 1970-01-05 on.
\<close>

definition flat_frame :: "nat \<Rightarrow> real \<Rightarrow> frame" where
  "flat_frame n c =
     \<lparr>columns = [''Close''], rows = map (\<lambda>i. (int i, \<lambda>label. Fin c)) [0..<n]\<rparr>"

definition weekday_frame :: "nat \<Rightarrow> (nat \<Rightarrow> real) \<Rightarrow> frame" where
  "weekday_frame n f =
     \<lparr>columns = [''Close''],
      rows = map (\<lambda>i. (int (7 * (i div 5) + i mod 5) + 4, \<lambda>label. Fin (f i))) [0..<n]\<rparr>"

text \<open>
  A provider whose batch download yields a table for \<^verbatim>\<open>TCS.NS\<close> only, with a constant price
  on 40 trading days; every other retrieval raises.
\<close>

definition flat_raw :: raw_batch where
  "flat_raw =
     \<lparr>whole = empty_frame,
      sub = (\<lambda>t. if t = ''TCS.NS'' then Inr (weekday_frame 40 (\<lambda>i. 5))
                 else Inl (KeyError t))\<rparr>"

definition flat_market :: provider where
  "flat_market =
     \<lparr>download = (\<lambda>ts. Inr flat_raw),
      download_one = (\<lambda>t. Inl (ProviderError ''no data'')),
      info = (\<lambda>t. Inl (ProviderError ''no data''))\<rparr>"

text \<open>
  A provider for three tickers: the batch result has a table for \<^verbatim>\<open>A\<close> only, the single
  retrieval succeeds for \<^verbatim>\<open>B\<close> only.
\<close>

definition patchy_raw :: raw_batch where
  "patchy_raw =
     \<lparr>whole = empty_frame,
      sub = (\<lambda>t. if t = ''A'' then Inr (flat_frame 3 1) else Inl (KeyError t))\<rparr>"

definition patchy :: provider where
  "patchy =
     \<lparr>download = (\<lambda>ts. Inr patchy_raw),
      download_one = (\<lambda>t. if t = ''B'' then Inr (flat_frame 2 7)
                           else Inl (ProviderError ''no data'')),
      info = (\<lambda>t. Inl (ProviderError ''no data''))\<rparr>"

text \<open>
  A provider whose batch download returns a result without a table for any ticker and whose
  single retrievals all raise; a provider whose batch download has the same table, a
  constant price on 40 trading days, for every ticker; and one whose tables have 39 trading
  days only.
\<close>

definition all_fail_raw :: raw_batch where
  "all_fail_raw = \<lparr>whole = empty_frame, sub = (\<lambda>t. Inl (KeyError t))\<rparr>"

definition all_fail :: provider where
  "all_fail =
     \<lparr>download = (\<lambda>ts. Inr all_fail_raw),
      download_one = (\<lambda>t. Inl (ProviderError ''no data'')),
      info = (\<lambda>t. Inl (ProviderError ''no data''))\<rparr>"

definition all_flat_raw :: raw_batch where
  "all_flat_raw =
     \<lparr>whole = empty_frame, sub = (\<lambda>t. Inr (weekday_frame 40 (\<lambda>i. 5)))\<rparr>"

definition all_flat :: provider where
  "all_flat =
     \<lparr>download = (\<lambda>ts. Inr all_flat_raw),
      download_one = (\<lambda>t. Inl (ProviderError ''no data'')),
      info = (\<lambda>t. Inl (ProviderError ''no data''))\<rparr>"

definition short_raw :: raw_batch where
  "short_raw = \<lparr>whole = empty_frame, sub = (\<lambda>t. Inr (weekday_frame 39 (\<lambda>i. 5)))\<rparr>"

definition short_history :: provider where
  "short_history =
     \<lparr>download = (\<lambda>ts. Inr short_raw),
      download_one = (\<lambda>t. Inl (ProviderError ''no data'')),
      info = (\<lambda>t. Inl (ProviderError ''no data''))\<rparr>"

section \<open>The trading calendar\<close>

text \<open>
  A trading day is a day from Monday to Friday.  Day 0, 1970-01-01, was a Thursday, so the
  Saturdays and Sundays are the days \<open>d\<close> with \<open>(d + 3) mod 7\<close> equal to 5 and 6.
\<close>

definition weekday :: "int \<Rightarrow> bool" where
  "weekday d = ((d + 3) mod 7 < 5)"

text \<open>The dates on which a column of a table has an observation; it serves the proofs.\<close>

definition observed_days :: "string \<Rightarrow> frame \<Rightarrow> int set" where
  "observed_days c df = fst ` {x \<in> set (rows df). \<not> isnan (snd x c)}"

section \<open>Auxiliary: the table stored for a ticker\<close>

text \<open>What one round of the loop of \<open>fetch_all\<close> stores for a ticker; it serves the proofs.\<close>

definition stored :: "provider \<Rightarrow> raw_batch \<Rightarrow> string \<Rightarrow> frame" where
  "stored p raw t =
     (case sub raw t of
        Inr df \<Rightarrow> dropna_all df
      | Inl _ \<Rightarrow> (case download_one p t of Inr df2 \<Rightarrow> df2 | Inl _ \<Rightarrow> empty_frame))"

text \<open>
  The candidate selected from \<open>flat_market\<close>, and a table of 40 trading days whose price
  is 5 until it moves to 6, back to 5 and to 6 again on the last three days.
\<close>

definition flat_candidate :: candidate where
  "flat_candidate =
     \<lparr>ticker = ''TCS.NS'', company = [], daily_rsi = NaN, weekly_rsi = NaN,
      volatility = Fin 0, series_daily = replicate 40 (Fin 5)\<rparr>"

definition late_move_frame :: frame where
  "late_move_frame = weekday_frame 40 (\<lambda>i. if i < 37 \<or> i = 38 then 5 else 6)"

text \<open>
  The candidate and the output row of a ticker whose price is constant at 5 on 40 trading
  days, without a company name.
\<close>

definition flat_cand :: "string \<Rightarrow> candidate" where
  "flat_cand t =
     \<lparr>ticker = t, company = [], daily_rsi = NaN, weekly_rsi = NaN, volatility = Fin 0,
      series_daily = replicate 40 (Fin 5)\<rparr>"

definition flat_card :: "string \<Rightarrow> card" where
  "flat_card t =
     \<lparr>ticker = t, company = [], daily_rsi = NaN, weekly_rsi = NaN, volatility = Fin 0,
      series_daily = replicate 40 (Fin 5), signal = ''Neutral'', color = PALETTE_yellow,
      cross = False\<rparr>"


section \<open>The signal classifier\<close>

lemmas rule_defs = rule1_def rule2_def rule3_def rule4_def rule5_def

lemma signal_of_first_match:
  "first_match decision_table d w = Some (fst (signal_of d w))"
proof -
  have "first_match decision_table d w =
     (if rule1 d w then Some ''Conflict'' else if rule2 d w then Some ''Conflict''
      else if rule3 d w then Some ''Buy'' else if rule4 d w then Some ''Sell''
      else if rule5 d w then Some ''Neutral'' else Some ''Neutral'')"
    unfolding decision_table_def by (simp only: first_match.simps if_True)
  moreover have "fst (signal_of d w) =
     (if rule1 d w then ''Conflict'' else if rule2 d w then ''Conflict''
      else if rule3 d w then ''Buy'' else if rule4 d w then ''Sell''
      else if rule5 d w then ''Neutral'' else ''Neutral'')"
    unfolding signal_of_def rule_defs between_def
    by (simp only: if_distrib[of fst] fst_conv conj_assoc)
  ultimately show ?thesis by (simp only: if_distrib[of Some])
qed

lemma signal_of_cross:
  "snd (snd (signal_of d w)) = (rule1 d w \<or> rule2 d w)"
  unfolding signal_of_def rule_defs between_def
  by simp

lemma with_signal_fields:
  "signal (with_signal c) = fst (signal_of (daily_rsi c) (weekly_rsi c))"
  "cross (with_signal c) = snd (snd (signal_of (daily_rsi c) (weekly_rsi c)))"
  "color (with_signal c) = fst (snd (signal_of (daily_rsi c) (weekly_rsi c)))"
  "ticker (with_signal c) = ticker c"
  "volatility (with_signal c) = volatility c"
  "daily_rsi (with_signal c) = daily_rsi c"
  "weekly_rsi (with_signal c) = weekly_rsi c"
  by (simp_all add: with_signal_def split: prod.split)

lemma signal_examples:
  "fst (signal_of (Fin 65) (Fin 50)) = ''Conflict''"
  "fst (signal_of (Fin 50) (Fin 65)) = ''Conflict''"
  "fst (signal_of (Fin 70) (Fin 75)) = ''Buy''"
  "fst (signal_of (Fin 30) (Fin 25)) = ''Sell''"
  "fst (signal_of (Fin 50) (Fin 50)) = ''Neutral''"
  "fst (signal_of (Fin 75) (Fin 30)) = ''Neutral''"
  by (simp_all add: signal_of_def between_def fl_gt_def)

text \<open>
  Claim C2.  For every pair of a daily and a weekly RSI value (\<open>NaN\<close> included), the label
  that the signal block gives is the label of the first rule of the specified decision table
  that matches, the cross (the conflict marker) is set exactly when rule 1 or rule 2 matches,
  the rows of the returned table carry this label and this cross, and the six listed pairs
  get the listed labels.
\<close>

theorem signal_priority_table:
  "first_match decision_table d w = Some (fst (signal_of d w))
   \<and> snd (snd (signal_of d w)) = (rule1 d w \<or> rule2 d w)
   \<and> signal (with_signal c) = fst (signal_of (daily_rsi c) (weekly_rsi c))
   \<and> cross (with_signal c) = snd (snd (signal_of (daily_rsi c) (weekly_rsi c)))
   \<and> fst (signal_of (Fin 65) (Fin 50)) = ''Conflict''
   \<and> fst (signal_of (Fin 50) (Fin 65)) = ''Conflict''
   \<and> fst (signal_of (Fin 70) (Fin 75)) = ''Buy''
   \<and> fst (signal_of (Fin 30) (Fin 25)) = ''Sell''
   \<and> fst (signal_of (Fin 50) (Fin 50)) = ''Neutral''
   \<and> fst (signal_of (Fin 75) (Fin 30)) = ''Neutral''"
  by (intro conjI signal_of_first_match signal_of_cross with_signal_fields signal_examples)

section \<open>The pipeline boundary\<close>

lemma analyze_no_candidates:
  "selected p pm = [] \<Longrightarrow> analyze p pm = Inl (KeyError ''volatility'')"
  by (simp add: analyze_def)

text \<open>
  Claim C1.  During a provider outage the batch download raises, \<open>fetch_all\<close> returns the
  empty dictionary, no candidate is selected, and \<open>analyze_universe\<close> does not return the empty
  table: sorting the table built from the empty list raises \<open>KeyError\<close>, before the check for
  an empty table is reached.
\<close>

theorem analyze_universe_outage:
  "analyze_universe outage = Inl (KeyError ''volatility'')"
  by (simp add: analyze_universe_def analyze_def fetch_all_def outage_def selected_def vol_list_def
      vol_scores_def sort_by_def)

section \<open>Series of finite prices\<close>

text \<open>
  On a cleaned series of finite prices the operations of \<open>rsi\<close> reduce to the real
  functions \<open>deltas\<close>, \<open>ups\<close>, \<open>downs\<close> and \<open>ewma\<close>: only the leading position, which has no
  predecessor, is \<open>NaN\<close> in the intermediate series.
\<close>

lemma dropna_map_Fin: "dropna (map Fin ps) = map Fin ps"
  by (induction ps) (simp_all add: dropna_def)

lemma zip_butlast_Cons: "zip xs (butlast (p # xs)) = zip xs (p # xs)"
  by (induction xs arbitrary: p) simp_all

lemma diff_map_Fin: "diff (map Fin (p # ps)) = NaN # map Fin (deltas (p # ps))"
proof -
  have "map2 fl_sub (map Fin ps) (map Fin (butlast (p # ps)))
        = map Fin (map2 (\<lambda>x y. x - y) ps (butlast (p # ps)))"
    by (simp add: zip_map_map fl_sub_def split_def)
  then show ?thesis
    by (simp add: diff_def shift1_def deltas_def map_butlast fl_sub_def zip_butlast_Cons
        del: butlast.simps)
qed

lemma ewm_loop_Fin:
  "ewm_loop a (Fin w) 1 (map Fin xs) = map Fin (ewma_from a w xs)"
proof (induction xs arbitrary: w)
  case Nil
  then show ?case by simp
next
  case (Cons x xs)
  have "x = w \<Longrightarrow> (1 - a) * w + a * x = w" by (simp add: algebra_simps)
  then show ?case using Cons.IH by (auto simp: Let_def)
qed

lemma inf_as_nan_comp_Fin: "inf_as_nan \<circ> Fin = Fin"
  by (rule ext) simp

lemma ewm_mean_NaN_Fin:
  "ewm_mean a (NaN # map Fin xs) = NaN # map Fin (ewma a xs)"
proof (cases xs)
  case Nil
  then show ?thesis by (simp add: ewm_mean_def ewma_def)
next
  case (Cons y ys)
  have "ewm_mean a (NaN # map Fin xs) = NaN # ewm_loop a NaN 1 (map Fin xs)"
    unfolding ewm_mean_def by (simp add: inf_as_nan_comp_Fin)
  also have "\<dots> = NaN # map Fin (ewma a xs)"
    using ewm_loop_Fin[of a y ys] Cons by (simp add: ewma_def)
  finally show ?thesis .
qed

lemma ewma_from_nonneg:
  "0 \<le> a \<Longrightarrow> a \<le> 1 \<Longrightarrow> 0 \<le> w \<Longrightarrow> \<forall>x\<in>set xs. 0 \<le> x \<Longrightarrow> \<forall>y\<in>set (ewma_from a w xs). 0 \<le> y"
proof (induction xs arbitrary: w)
  case Nil
  then show ?case by simp
next
  case (Cons x xs)
  have "0 \<le> (1 - a) * w" "0 \<le> a * x" using Cons.prems by simp_all
  then have w': "0 \<le> (1 - a) * w + a * x" by linarith
  have "\<forall>y\<in>set (ewma_from a ((1 - a) * w + a * x) xs). 0 \<le> y"
    using Cons.IH[OF Cons.prems(1,2) w'] Cons.prems(4) by simp
  then show ?case using w' by simp
qed

lemma length_ewma_from [simp]: "length (ewma_from a w xs) = length xs"
  by (induction xs arbitrary: w) simp_all

lemma length_ewma [simp]: "length (ewma a xs) = length xs"
  by (cases xs) (simp_all add: ewma_def)

lemma length_deltas [simp]: "length (deltas ps) = length ps - 1"
  by (simp add: deltas_def)

lemma rsi_up_map_Fin:
  "rsi_up (map Fin (p # ps)) = NaN # map Fin (map (max 0) (deltas (p # ps)))"
  using diff_map_Fin[of p ps] by (simp add: rsi_up_def clip_lower_def max_def not_less)

lemma rsi_down_map_Fin:
  "rsi_down (map Fin (p # ps)) = NaN # map Fin (map (\<lambda>x. max 0 (- x)) (deltas (p # ps)))"
  using diff_map_Fin[of p ps] by (simp add: rsi_down_def clip_upper_def fl_gt_def max_def)

lemma rsi_value_eq:
  assumes "0 \<le> u" "0 \<le> d"
  shows "fl_sub (Fin 100) (fl_div (Fin 100) (fl_add (Fin 1) (fl_div (Fin u) (Fin d)))) = rsi_value u d"
proof (cases "d = 0")
  case True
  then show ?thesis using assms by (simp add: rsi_value_def fl_sub_def signed_inf_def)
next
  case False
  then have "0 < 1 + u / d" using assms by (simp add: add_pos_nonneg)
  then show ?thesis using False by (simp add: rsi_value_def fl_sub_def)
qed

lemma ewma_nonneg:
  assumes "0 \<le> a" "a \<le> 1" "\<forall>x\<in>set xs. 0 \<le> x"
  shows "\<forall>y\<in>set (ewma a xs). 0 \<le> y"
proof (cases xs)
  case Nil
  then show ?thesis by (simp add: ewma_def)
next
  case (Cons x xs')
  then have "0 \<le> x" "\<forall>x\<in>set xs'. 0 \<le> x" using assms(3) by simp_all
  then have "\<forall>y\<in>set (ewma_from a x xs'). 0 \<le> y"
    using ewma_from_nonneg[OF assms(1,2)] by blast
  then show ?thesis using Cons \<open>0 \<le> x\<close> by (simp add: ewma_def)
qed

lemma ewma_from_zero_iff:
  assumes "0 < a" "a < 1"
  shows "0 \<le> w \<Longrightarrow> \<forall>x\<in>set xs. 0 \<le> x \<Longrightarrow> k < length xs \<Longrightarrow>
         (ewma_from a w xs ! k = 0) = (w = 0 \<and> (\<forall>j\<le>k. xs ! j = 0))"
proof (induction xs arbitrary: w k)
  case Nil
  then show ?case by simp
next
  case (Cons x xs)
  let ?w' = "(1 - a) * w + a * x"
  have x0: "0 \<le> x" using Cons.prems by simp
  have w': "0 \<le> ?w'" using assms Cons.prems x0 by simp
  have z: "(?w' = 0) = (w = 0 \<and> x = 0)"
  proof
    assume h: "?w' = 0"
    have "0 \<le> (1 - a) * w" "0 \<le> a * x" using assms Cons.prems x0 by simp_all
    with h have "(1 - a) * w = 0" "a * x = 0" by linarith+
    then show "w = 0 \<and> x = 0" using assms by simp
  qed simp
  show ?case
  proof (cases k)
    case 0
    then show ?thesis using z by simp
  next
    case (Suc k')
    then have "(ewma_from a w (x # xs) ! k = 0) = (?w' = 0 \<and> (\<forall>j\<le>k'. xs ! j = 0))"
      using Cons.IH[of ?w' k'] w' Cons.prems by simp
    also have "\<dots> = (w = 0 \<and> (\<forall>j\<le>k. (x # xs) ! j = 0))"
      unfolding z using Suc by (auto simp: nth_Cons split: nat.splits) 
    finally show ?thesis .
  qed
qed

lemma ewma_zero_iff:
  assumes "0 < a" "a < 1" "\<forall>x\<in>set xs. 0 \<le> x" "k < length xs"
  shows "(ewma a xs ! k = 0) = (\<forall>j\<le>k. xs ! j = 0)"
proof (cases xs)
  case Nil
  then show ?thesis using assms by simp
next
  case (Cons x xs')
  show ?thesis
  proof (cases k)
    case 0
    then show ?thesis using Cons by (simp add: ewma_def)
  next
    case (Suc k')
    have "(ewma a xs ! k = 0) = (x = 0 \<and> (\<forall>j\<le>k'. xs' ! j = 0))"
      using ewma_from_zero_iff[OF assms(1,2), of x xs' k'] assms(3,4) Cons Suc
      by (simp add: ewma_def)
    also have "\<dots> = (\<forall>j\<le>k. xs ! j = 0)"
      using Cons Suc by (auto simp: nth_Cons split: nat.splits)
    finally show ?thesis .
  qed
qed

lemma map2_rsi_value:
  "\<forall>x\<in>set us. 0 \<le> x \<Longrightarrow> \<forall>x\<in>set ds. 0 \<le> x \<Longrightarrow>
   map (\<lambda>x. fl_sub (Fin 100) (fl_div (Fin 100) (fl_add (Fin 1) x)))
       (map2 fl_div (map Fin us) (map Fin ds)) = map2 rsi_value us ds"
proof (induction us ds rule: list_induct2')
  case (4 u us d ds)
  then show ?case using rsi_value_eq[of u d] by simp
qed simp_all

lemma ups_nonneg: "\<forall>x\<in>set (ups ps). 0 \<le> x"
  by (simp add: ups_def)

lemma downs_nonneg: "\<forall>x\<in>set (downs ps). 0 \<le> x"
  by (simp add: downs_def)

lemma alpha_bounds: "0 < 1 / real RSI_PERIOD" "1 / real RSI_PERIOD < 1"
  by (simp_all add: RSI_PERIOD_def)

lemma avg_up_Fin:
  "avg_up n (map Fin (p # ps)) = NaN # map Fin (ewma (1 / real n) (ups (p # ps)))"
  unfolding avg_up_def rsi_up_map_Fin ups_def by (rule ewm_mean_NaN_Fin)

lemma avg_down_Fin:
  "avg_down n (map Fin (p # ps)) = NaN # map Fin (ewma (1 / real n) (downs (p # ps)))"
  unfolding avg_down_def rsi_down_map_Fin downs_def by (rule ewm_mean_NaN_Fin)

lemma rsi_Fin:
  "rsi (map Fin (p # ps)) =
     NaN # map2 rsi_value (ewma (1 / real RSI_PERIOD) (ups (p # ps)))
                          (ewma (1 / real RSI_PERIOD) (downs (p # ps)))"
proof -
  let ?a = "1 / real RSI_PERIOD"
  have a: "0 \<le> ?a" "?a \<le> 1" using alpha_bounds by simp_all
  have u: "\<forall>x\<in>set (ewma ?a (ups (p # ps))). 0 \<le> x"
    by (rule ewma_nonneg[OF a ups_nonneg])
  have d: "\<forall>x\<in>set (ewma ?a (downs (p # ps))). 0 \<le> x"
    by (rule ewma_nonneg[OF a downs_nonneg])
  have "rsi (map Fin (p # ps)) =
        map (\<lambda>x. fl_sub (Fin 100) (fl_div (Fin 100) (fl_add (Fin 1) x)))
          (map2 fl_div (avg_up RSI_PERIOD (map Fin (p # ps))) (avg_down RSI_PERIOD (map Fin (p # ps))))"
    unfolding rsi_def rsi_period_def dropna_map_Fin by (simp add: Let_def)
  also have "\<dots> = NaN # map (\<lambda>x. fl_sub (Fin 100) (fl_div (Fin 100) (fl_add (Fin 1) x)))
          (map2 fl_div (map Fin (ewma ?a (ups (p # ps)))) (map Fin (ewma ?a (downs (p # ps)))))"
    unfolding avg_up_Fin avg_down_Fin by (simp add: fl_sub_def)
  also have "\<dots> = NaN # map2 rsi_value (ewma ?a (ups (p # ps))) (ewma ?a (downs (p # ps)))"
    using map2_rsi_value[OF u d] by simp
  finally show ?thesis .
qed

lemma rsi_value_range:
  assumes "0 \<le> u" "0 \<le> d"
  shows "rsi_value u d = NaN \<or> (\<exists>r. rsi_value u d = Fin r \<and> 0 \<le> r \<and> r \<le> 100)"
proof (cases "d = 0")
  case True
  then show ?thesis by (simp add: rsi_value_def)
next
  case False
  then have d: "0 < d" using assms by simp
  define t where "t = 1 + u / d"
  have t: "1 \<le> t" using assms d by (simp add: t_def)
  then have "0 < t" by linarith
  then have "100 / t \<le> 100" using t by (simp add: pos_divide_le_eq)
  moreover have "0 \<le> 100 / t" using \<open>0 < t\<close> by simp
  ultimately have "0 \<le> 100 - 100 / (1 + u / d)" "100 - 100 / (1 + u / d) \<le> 100"
    unfolding t_def by linarith+
  then show ?thesis using False by (simp add: rsi_value_def)
qed

lemma rsi_value_NaN_iff: "(rsi_value u d = NaN) = (u = 0 \<and> d = 0)"
  by (simp add: rsi_value_def)

lemma length_ups [simp]: "length (ups ps) = length ps - 1"
  by (simp add: ups_def)

lemma length_downs [simp]: "length (downs ps) = length ps - 1"
  by (simp add: downs_def)

lemma rsi_Fin_nth:
  assumes "Suc k < length ps"
  shows "rsi (map Fin ps) ! Suc k =
         rsi_value (ewma (1 / real RSI_PERIOD) (ups ps) ! k) (ewma (1 / real RSI_PERIOD) (downs ps) ! k)"
proof -
  obtain p ps' where ps: "ps = p # ps'" using assms by (cases ps) auto
  show ?thesis unfolding ps rsi_Fin using assms ps by simp
qed

lemma rsi_Fin_range:
  assumes "v \<in> set (rsi (map Fin ps))"
  shows "v = NaN \<or> (\<exists>r. v = Fin r \<and> 0 \<le> r \<and> r \<le> 100)"
proof (cases ps)
  case Nil
  then show ?thesis using assms by (simp add: rsi_def rsi_period_def dropna_def)
next
  case (Cons p ps')
  let ?a = "1 / real RSI_PERIOD"
  have a: "0 \<le> ?a" "?a \<le> 1" using alpha_bounds by simp_all
  have u: "\<forall>x\<in>set (ewma ?a (ups ps)). 0 \<le> x"
    by (rule ewma_nonneg[OF a ups_nonneg])
  have d: "\<forall>x\<in>set (ewma ?a (downs ps)). 0 \<le> x"
    by (rule ewma_nonneg[OF a downs_nonneg])
  from assms have "v = NaN \<or> v \<in> set (map2 rsi_value (ewma ?a (ups ps)) (ewma ?a (downs ps)))"
    unfolding Cons rsi_Fin by simp
  then show ?thesis
  proof
    assume "v = NaN" then show ?thesis by simp
  next
    assume "v \<in> set (map2 rsi_value (ewma ?a (ups ps)) (ewma ?a (downs ps)))"
    then obtain x y where xy: "(x, y) \<in> set (zip (ewma ?a (ups ps)) (ewma ?a (downs ps)))" "v = rsi_value x y"
      by auto
    then have "0 \<le> x" "0 \<le> y" using u d by (auto dest: set_zip_leftD set_zip_rightD)
    then show ?thesis using rsi_value_range xy(2) by simp
  qed
qed

lemma dropna_idem [simp]: "dropna (dropna s) = dropna s"
  by (simp add: dropna_def)

lemma rsi_dropna: "rsi (dropna s) = rsi s"
  by (simp add: rsi_def rsi_period_def)

lemma length_ewm_loop [simp]: "length (ewm_loop a w ow xs) = length xs"
  by (induction xs arbitrary: w ow) (simp_all add: Let_def)

lemma length_ewm_mean [simp]: "length (ewm_mean a xs) = length xs"
  by (cases xs) (simp_all add: ewm_mean_def)

lemma length_shift1 [simp]: "length (shift1 s) = length s"
  by (cases s) (simp_all add: shift1_def)

lemma length_diff [simp]: "length (diff s) = length s"
  by (simp add: diff_def)

lemma length_rsi: "length (rsi s) = length (dropna s)"
  by (simp add: rsi_def rsi_period_def Let_def avg_up_def avg_down_def rsi_up_def rsi_down_def
      clip_lower_def clip_upper_def)

lemma fl_add_NaN_right [simp]: "fl_add x NaN = NaN"
  by (cases x) simp_all

lemma diff_Cons: "diff (x # xs) = NaN # map2 fl_sub xs (butlast (x # xs))"
  by (simp add: diff_def shift1_def fl_sub_def del: butlast.simps)

lemma ewm_mean_Cons:
  "ewm_mean a (x # xs) = inf_as_nan x # ewm_loop a (inf_as_nan x) 1 (map inf_as_nan xs)"
  by (simp add: ewm_mean_def)

lemma rsi_first_NaN:
  assumes "dropna s \<noteq> []"
  shows "rsi s ! 0 = NaN"
proof -
  obtain x xs where s: "dropna s = x # xs" using assms by (cases "dropna s") auto
  have u: "avg_up RSI_PERIOD (x # xs) ! 0 = NaN"
    by (simp add: avg_up_def rsi_up_def diff_Cons clip_lower_def ewm_mean_Cons del: butlast.simps)
  have d: "avg_down RSI_PERIOD (x # xs) ! 0 = NaN"
    by (simp add: avg_down_def rsi_down_def diff_Cons clip_upper_def fl_gt_def ewm_mean_Cons
        del: butlast.simps)
  have l: "0 < length (avg_up RSI_PERIOD (x # xs))" "0 < length (avg_down RSI_PERIOD (x # xs))"
    by (simp_all add: avg_up_def avg_down_def rsi_up_def rsi_down_def clip_lower_def clip_upper_def)
  show ?thesis
    unfolding rsi_def rsi_period_def s using u d l by (simp add: Let_def fl_sub_def)
qed

lemma deltas_nth:
  assumes "Suc j < length ps"
  shows "deltas ps ! j = ps ! Suc j - ps ! j"
proof -
  have "j < length (tl ps)" "j < length ps" using assms by simp_all
  then have "deltas ps ! j = tl ps ! j - ps ! j"
    unfolding deltas_def by simp
  moreover have "tl ps ! j = ps ! Suc j" using \<open>j < length (tl ps)\<close> by (rule nth_tl)
  ultimately show ?thesis by simp
qed

lemma flat_prefix_iff:
  fixes ps :: "real list"
  shows "(\<forall>j\<le>k. ps ! Suc j = ps ! j) = (\<forall>j\<le>Suc k. ps ! j = ps ! 0)"
proof
  assume h: "\<forall>j\<le>k. ps ! Suc j = ps ! j"
  have "j \<le> Suc k \<Longrightarrow> ps ! j = ps ! 0" for j
  proof (induction j)
    case 0
    then show ?case by simp
  next
    case (Suc j)
    then have "j \<le> k" by simp
    then have "ps ! Suc j = ps ! j" using h by blast
    moreover have "ps ! j = ps ! 0" using Suc.IH Suc.prems by linarith
    ultimately show ?case by (rule trans)
  qed
  then show "\<forall>j\<le>Suc k. ps ! j = ps ! 0" by blast
next
  assume h: "\<forall>j\<le>Suc k. ps ! j = ps ! 0"
  show "\<forall>j\<le>k. ps ! Suc j = ps ! j"
  proof (intro allI impI)
    fix j assume "j \<le> k"
    then have "Suc j \<le> Suc k" "j \<le> Suc k" by simp_all
    then have "ps ! Suc j = ps ! 0" "ps ! j = ps ! 0" using h by blast+
    then show "ps ! Suc j = ps ! j" by (rule trans[OF _ sym])
  qed
qed

lemma rsi_Fin_NaN_iff:
  assumes "i < length ps"
  shows "(rsi (map Fin ps) ! i = NaN) = (\<forall>j\<le>i. ps ! j = ps ! 0)"
proof (cases i)
  case 0
  have "dropna (map Fin ps) \<noteq> []" using assms by (auto simp: dropna_map_Fin)
  then show ?thesis using 0 rsi_first_NaN by simp
next
  case (Suc k)
  let ?a = "1 / real RSI_PERIOD"
  have k: "Suc k < length ps" using assms Suc by simp
  then have kl: "k < length (ups ps)" "k < length (downs ps)" by simp_all
  have "(rsi (map Fin ps) ! i = NaN) =
        (ewma ?a (ups ps) ! k = 0 \<and> ewma ?a (downs ps) ! k = 0)"
    unfolding Suc rsi_Fin_nth[OF k] rsi_value_NaN_iff ..
  also have "\<dots> = ((\<forall>j\<le>k. ups ps ! j = 0) \<and> (\<forall>j\<le>k. downs ps ! j = 0))"
    using ewma_zero_iff[OF alpha_bounds ups_nonneg kl(1)]
          ewma_zero_iff[OF alpha_bounds downs_nonneg kl(2)] by simp
  also have "\<dots> = (\<forall>j\<le>k. ps ! Suc j = ps ! j)"
  proof -
    have "j \<le> k \<Longrightarrow> (ups ps ! j = 0 \<and> downs ps ! j = 0) = (ps ! Suc j = ps ! j)" for j
    proof -
      assume "j \<le> k"
      then have j: "Suc j < length ps" using k by simp
      then have "j < length (deltas ps)" by simp
      then have "ups ps ! j = max 0 (ps ! Suc j - ps ! j)"
                "downs ps ! j = max 0 (- (ps ! Suc j - ps ! j))"
        using deltas_nth[OF j] by (simp_all add: ups_def downs_def)
      then show ?thesis by (auto simp: max_def split: if_splits)
    qed
    then show ?thesis by blast
  qed
  also have "\<dots> = (\<forall>j\<le>i. ps ! j = ps ! 0)"
    unfolding Suc by (rule flat_prefix_iff)
  finally show ?thesis .
qed

lemmas series_eval = dropna_def shift1_def diff_def clip_lower_def clip_upper_def ewm_mean_def
  rsi_up_def rsi_down_def avg_up_def avg_down_def rsi_period_def rsi_def RSI_PERIOD_def
  fl_sub_def fl_gt_def signed_inf_def

section \<open>The RSI engine\<close>

text \<open>
  Claim C4, as amended.  For every input whose observed prices are finite (missing values
  are dropped first), every value of the output of \<open>rsi\<close> is \<open>NaN\<close> or a number in \<open>[0, 100]\<close>;
  and the value at a position is \<open>NaN\<close> exactly when the price has not moved up to that
  position: always at the leading position, and at every position of a constant input,
  however long.
\<close>

theorem rsi_values_bounded_or_nan:
  assumes "dropna s = map Fin ps"
  shows "(\<forall>v\<in>set (rsi s). v = NaN \<or> (\<exists>r. v = Fin r \<and> 0 \<le> r \<and> r \<le> 100))
         \<and> (\<forall>i<length ps. (rsi s ! i = NaN) = (\<forall>j\<le>i. ps ! j = ps ! 0))"
proof -
  have eq: "rsi s = rsi (map Fin ps)" using rsi_dropna[of s] assms by simp
  show ?thesis unfolding eq using rsi_Fin_range rsi_Fin_NaN_iff by blast
qed

text \<open>
  A witness: with one missing value and the prices 5, 5, 6 the output is undefined at the
  second price and defined at the third.
\<close>

theorem rsi_values_bounded_or_nan_witness:
  "dropna [Fin 5, NaN, Fin 5, Fin 6] = map Fin [5, 5, 6]
   \<and> rsi [Fin 5, NaN, Fin 5, Fin 6] ! 1 = NaN
   \<and> rsi [Fin 5, NaN, Fin 5, Fin 6] ! 2 \<noteq> NaN"
proof -
  have h: "dropna [Fin 5, NaN, Fin 5, Fin 6] = map Fin [5, 5, 6]" by (simp add: dropna_def)
  note t = rsi_values_bounded_or_nan[OF h, THEN conjunct2, rule_format]
  have a: "\<forall>j\<le>1. [5, 5, 6::real] ! j = [5, 5, 6] ! 0"
    by (auto simp: le_Suc_eq)
  have b: "\<not> (\<forall>j\<le>2. [5, 5, 6::real] ! j = [5, 5, 6] ! 0)"
    by (auto intro: exI[of _ 2])
  have "rsi [Fin 5, NaN, Fin 5, Fin 6] ! 1 = NaN" using t[of 1] a by simp
  moreover have "rsi [Fin 5, NaN, Fin 5, Fin 6] ! 2 \<noteq> NaN" using t[of 2] b by simp
  ultimately show ?thesis using h by blast
qed

text \<open>
  Claim C4 as stated fails: an input of three equal prices has three points, and the latest
  value of its RSI series is undefined.
\<close>

theorem rsi_flat_counterexample:
  "rsi [Fin 5, Fin 5, Fin 5] ! 2 = NaN \<and> length (dropna [Fin 5, Fin 5, Fin 5]) = 3"
  by (simp add: series_eval)

text \<open>
  Claim C5, as amended.  \<open>rsi\<close> is a total function: the division by a zero average of
  down moves raises nothing.  For every input whose observed prices are finite, at every
  position where the smoothed average of the down moves is zero, the output is 100 when the
  smoothed average of the up moves is positive and \<open>NaN\<close> otherwise.
\<close>

theorem rsi_zero_avg_down:
  assumes "dropna s = map Fin ps" "i < length ps"
    and "avg_down RSI_PERIOD (dropna s) ! i = Fin 0"
  shows "rsi s ! i = (if fl_gt (avg_up RSI_PERIOD (dropna s) ! i) (Fin 0) then Fin 100 else NaN)"
proof -
  let ?a = "1 / real RSI_PERIOD"
  obtain p ps' where ps: "ps = p # ps'" using assms(2) by (cases ps) auto
  have eq: "rsi s = rsi (map Fin ps)" using rsi_dropna[of s] assms(1) by simp
  have ad: "avg_down RSI_PERIOD (dropna s) = NaN # map Fin (ewma ?a (downs ps))"
    unfolding assms(1) ps by (rule avg_down_Fin)
  have au: "avg_up RSI_PERIOD (dropna s) = NaN # map Fin (ewma ?a (ups ps))"
    unfolding assms(1) ps by (rule avg_up_Fin)
  obtain k where i: "i = Suc k" using assms(3) ad by (cases i) auto
  have k: "Suc k < length ps" using assms(2) i by simp
  then have kl: "k < length (ewma ?a (ups ps))" "k < length (ewma ?a (downs ps))" by simp_all
  have d0: "ewma ?a (downs ps) ! k = 0" using assms(3) ad i kl by simp
  have a: "0 \<le> ?a" "?a \<le> 1" using alpha_bounds by simp_all
  have "0 \<le> ewma ?a (ups ps) ! k"
    using ewma_nonneg[OF a ups_nonneg, of ps] kl(1) nth_mem by blast
  then have "rsi_value (ewma ?a (ups ps) ! k) 0 =
             (if fl_gt (Fin (ewma ?a (ups ps) ! k)) (Fin 0) then Fin 100 else NaN)"
    by (simp add: rsi_value_def fl_gt_def)
  then show ?thesis
    unfolding eq i rsi_Fin_nth[OF k] d0 au using kl by simp
qed

text \<open>A witness: after two rises the average of the down moves is zero and the RSI is 100.\<close>

theorem rsi_zero_avg_down_witness:
  "dropna [Fin 1, Fin 2, Fin 3] = map Fin [1, 2, 3]
   \<and> 2 < length [1, 2, 3 :: real]
   \<and> avg_down RSI_PERIOD (dropna [Fin 1, Fin 2, Fin 3]) ! 2 = Fin 0
   \<and> rsi [Fin 1, Fin 2, Fin 3] ! 2 = Fin 100"
proof -
  have h: "dropna [Fin 1, Fin 2, Fin 3] = map Fin [1, 2, 3]" by (simp add: dropna_def)
  have l: "2 < length [1, 2, 3 :: real]" by simp
  have d: "avg_down RSI_PERIOD (dropna [Fin 1, Fin 2, Fin 3]) ! 2 = Fin 0"
    by (simp add: series_eval)
  have u: "avg_up RSI_PERIOD (dropna [Fin 1, Fin 2, Fin 3]) ! 2 = Fin 1"
    by (simp add: series_eval)
  show ?thesis using rsi_zero_avg_down[OF h l d] h d u by (simp add: fl_gt_def)
qed

section \<open>Rounding\<close>

lemma round_half_even_error: "\<bar>of_int (round_half_even y) - y\<bar> \<le> 1 / 2"
proof -
  define f where "f = \<lfloor>y\<rfloor>"
  define r where "r = y - of_int f"
  have r: "0 \<le> r" "r < 1" unfolding r_def f_def by linarith+
  have y: "y = of_int f + r" by (simp add: r_def)
  consider "r < 1 / 2" | "1 / 2 < r" | "r = 1 / 2" by linarith
  then show ?thesis
  proof cases
    case 1
    then have "round_half_even y = f" by (simp add: round_half_even_def Let_def f_def r_def)
    then show ?thesis using 1 r y by simp
  next
    case 2
    then have "round_half_even y = f + 1" by (simp add: round_half_even_def Let_def f_def r_def)
    then show ?thesis using 2 r y by simp
  next
    case 3
    then have k: "round_half_even y = f \<or> round_half_even y = f + 1"
      by (simp add: round_half_even_def Let_def f_def r_def)
    have yf: "y - of_int f = 1 / 2" using 3 by (simp add: r_def)
    from k show ?thesis
    proof
      assume "round_half_even y = f"
      then have "of_int (round_half_even y) - y = of_int f - y" by (rule arg_cong)
      then show ?thesis using yf by linarith
    next
      assume "round_half_even y = f + 1"
      then have "of_int (round_half_even y) - y = of_int (f + 1) - y" by (rule arg_cong)
      then have "of_int (round_half_even y) - y = of_int f + 1 - y" by simp
      then show ?thesis using yf by linarith
    qed
  qed
qed

lemma round2_Fin:
  "\<exists>k::int. round2 (Fin x) = Fin (of_int k / 100) \<and> \<bar>of_int k / 100 - x\<bar> \<le> 1 / 200"
proof -
  let ?k = "round_half_even (x * 100)"
  have "\<bar>of_int ?k - x * 100\<bar> \<le> 1 / 2" by (rule round_half_even_error)
  then have "\<bar>of_int ?k / 100 - x\<bar> \<le> 1 / 200" by (simp add: field_simps abs_if split: if_splits)
  then show ?thesis by auto
qed

section \<open>Sorting by a float key\<close>

lemma fl_lt_irrefl [simp]: "\<not> fl_lt a a"
  by (cases a) simp_all

lemma fl_le_not_lt: "fl_le a b \<Longrightarrow> \<not> fl_lt b a"
  by (cases a; cases b) simp_all

lemma fl_not_lt_le: "\<not> isnan a \<Longrightarrow> \<not> isnan b \<Longrightarrow> \<not> fl_lt b a \<Longrightarrow> fl_le a b"
  by (cases a; cases b) simp_all

lemma fl_lt_le: "fl_lt a b \<Longrightarrow> fl_le a b"
  by (cases a; cases b) simp_all

lemma fl_le_trans: "fl_le a b \<Longrightarrow> fl_le b c \<Longrightarrow> fl_le a c"
  by (cases a; cases b; cases c) simp_all

lemma fl_le_isnan: "fl_le a b \<Longrightarrow> \<not> isnan a \<and> \<not> isnan b"
  by (cases a; cases b) simp_all

lemma mset_insort_by: "mset (insort_by k x xs) = add_mset x (mset xs)"
  by (induction xs) simp_all

lemma mset_sort_by: "mset (sort_by k xs) = mset xs"
  by (induction xs) (simp_all add: sort_by_def mset_insort_by)

lemma set_sort_by: "set (sort_by k xs) = set xs"
  using mset_sort_by[of k xs] by (metis set_mset_mset)

lemma length_sort_by: "length (sort_by k xs) = length xs"
  using mset_sort_by[of k xs] by (metis size_mset)

lemma set_insort_by: "set (insort_by k x xs) = insert x (set xs)"
  using mset_insort_by[of k x xs] by (metis set_mset_mset set_mset_add_mset_insert)

lemma sorted_insort_by:
  assumes "\<not> isnan (k x)" "\<forall>y\<in>set xs. \<not> isnan (k y)"
    and "sorted_wrt (\<lambda>a b. fl_le (k a) (k b)) xs"
  shows "sorted_wrt (\<lambda>a b. fl_le (k a) (k b)) (insort_by k x xs)"
  using assms(2,3)
proof (induction xs)
  case Nil
  then show ?case by simp
next
  case (Cons y ys)
  show ?case
  proof (cases "fl_lt (k y) (k x)")
    case True
    have "sorted_wrt (\<lambda>a b. fl_le (k a) (k b)) (insort_by k x ys)"
      using Cons by simp
    moreover have "\<forall>z\<in>set (insort_by k x ys). fl_le (k y) (k z)"
      using Cons.prems True by (auto simp: set_insort_by fl_lt_le)
    ultimately show ?thesis using True by simp
  next
    case False
    then have xy: "fl_le (k x) (k y)" using assms(1) Cons.prems(1) by (simp add: fl_not_lt_le)
    have "\<forall>z\<in>set ys. fl_le (k x) (k z)"
      using Cons.prems(2) xy fl_le_trans by auto
    then show ?thesis using False xy Cons.prems(2) by simp
  qed
qed

lemma sorted_sort_by:
  assumes "\<forall>y\<in>set xs. \<not> isnan (k y)"
  shows "sorted_wrt (\<lambda>a b. fl_le (k a) (k b)) (sort_by k xs)"
  using assms
proof (induction xs)
  case Nil
  then show ?case by (simp add: sort_by_def)
next
  case (Cons x xs)
  have "sorted_wrt (\<lambda>a b. fl_le (k a) (k b)) (insort_by k x (sort_by k xs))"
    using Cons by (intro sorted_insort_by) (simp_all add: set_sort_by)
  then show ?case by (simp add: sort_by_def)
qed

lemma filter_insort_by:
  "filter (\<lambda>y. k y = v) (insort_by k x xs) =
     (if k x = v then x # filter (\<lambda>y. k y = v) xs else filter (\<lambda>y. k y = v) xs)"
proof (induction xs)
  case Nil
  then show ?case by simp
next
  case (Cons y ys)
  show ?case
  proof (cases "fl_lt (k y) (k x)")
    case True
    then have "k y = v \<Longrightarrow> k x \<noteq> v" by auto
    then show ?thesis using True Cons by auto
  next
    case False
    then show ?thesis by simp
  qed
qed

lemma sort_by_stable:
  "filter (\<lambda>y. k y = v) (sort_by k xs) = filter (\<lambda>y. k y = v) xs"
  by (induction xs) (simp_all add: sort_by_def filter_insort_by)

lemma sort_by_sorted_id:
  "sorted_wrt (\<lambda>a b. fl_le (k a) (k b)) xs \<Longrightarrow> sort_by k xs = xs"
proof (induction xs)
  case Nil
  then show ?case by (simp add: sort_by_def)
next
  case (Cons x xs)
  then have IH: "sort_by k xs = xs" by simp
  have "insort_by k x xs = x # xs"
  proof (cases xs)
    case Nil
    then show ?thesis by simp
  next
    case (Cons y ys)
    then have "fl_le (k x) (k y)" using Cons.prems \<open>sorted_wrt _ (x # xs)\<close> by simp
    then show ?thesis using Cons fl_le_not_lt by simp
  qed
  then show ?case using IH by (simp add: sort_by_def)
qed


section \<open>The selection loop\<close>

text \<open>
  The loop with its \<^verbatim>\<open>break\<close> collects the first \<open>N_CARDS\<close> entries of \<open>vol_list\<close> that are not
  skipped.
\<close>

lemma select_loop_take:
  "select_loop p pm acc es =
     acc @ take (N_CARDS - length acc) (List.map_filter (select_one p pm) es)"
proof (induction es arbitrary: acc)
  case Nil
  then show ?case by (simp add: List.map_filter_simps)
next
  case (Cons e es)
  show ?case
  proof (cases "N_CARDS \<le> length acc")
    case True
    then show ?thesis by simp
  next
    case False
    then obtain m where m: "N_CARDS - length acc = Suc m" by (cases "N_CARDS - length acc") auto
    show ?thesis
    proof (cases "select_one p pm e")
      case None
      then show ?thesis using False Cons.IH[of acc] by (simp add: List.map_filter_simps)
    next
      case (Some c)
      have "N_CARDS - length (acc @ [c]) = m" using m by simp
      then show ?thesis using False Some Cons.IH[of "acc @ [c]"] m
        by (simp add: List.map_filter_simps)
    qed
  qed
qed

lemma selected_take:
  "selected p pm = take N_CARDS (List.map_filter (select_one p pm) (vol_list pm))"
  by (simp add: selected_def select_loop_take)

lemma length_selected: "length (selected p pm) \<le> N_CARDS"
  by (simp add: selected_take)

lemma set_map_filter: "set (List.map_filter f xs) = {y. \<exists>x\<in>set xs. f x = Some y}"
  by (induction xs) (auto simp: List.map_filter_simps split: option.splits)

lemma sorted_wrt_map_filter:
  assumes "sorted_wrt P xs"
    and "\<And>x y a b. f x = Some a \<Longrightarrow> f y = Some b \<Longrightarrow> P x y \<Longrightarrow> Q a b"
  shows "sorted_wrt Q (List.map_filter f xs)"
  using assms(1)
proof (induction xs)
  case Nil
  then show ?case by (simp add: List.map_filter_simps)
next
  case (Cons x xs)
  then have IH: "sorted_wrt Q (List.map_filter f xs)" by simp
  show ?case
  proof (cases "f x")
    case None
    then show ?thesis using IH by (simp add: List.map_filter_simps)
  next
    case (Some a)
    have "\<forall>b\<in>set (List.map_filter f xs). Q a b"
      using Cons.prems Some assms(2) by (auto simp: set_map_filter)
    then show ?thesis using IH Some by (simp add: List.map_filter_simps)
  qed
qed

lemma select_one_SomeD:
  assumes "select_one p pm e = Some c"
  shows "ticker c = fst e" "volatility c = snd e"
    "company c = company_name p (fst e)"
    "\<not> unusable (dict_get pm (fst e) empty_frame)"
    "40 \<le> length (dropna (column ''Close'' (dict_get pm (fst e) empty_frame)))"
    "8 \<le> length (dropna (column ''Close'' (resample_W_last (dict_get pm (fst e) empty_frame))))"
    "daily_rsi c = round2 (last (rsi (dropna (column ''Close'' (dict_get pm (fst e) empty_frame)))))"
    "weekly_rsi c =
       round2 (last (rsi (dropna (column ''Close'' (resample_W_last (dict_get pm (fst e) empty_frame))))))"
  using assms
  by (auto simp: select_one_def Let_def iloc_last_def split: if_splits sum.splits)

lemma vol_scores_not_nan: "\<forall>e\<in>set (vol_scores pm). \<not> isnan (snd e)"
  by (simp add: vol_scores_def)

lemma sorted_vol_list: "sorted_wrt (\<lambda>a b. fl_le (snd a) (snd b)) (vol_list pm)"
  unfolding vol_list_def by (rule sorted_sort_by[OF vol_scores_not_nan])

lemma sorted_selected:
  "sorted_wrt (\<lambda>a b. fl_le (volatility a) (volatility b)) (selected p pm)"
proof -
  have "sorted_wrt (\<lambda>a b. fl_le (volatility a) (volatility b))
          (List.map_filter (select_one p pm) (vol_list pm))"
    by (rule sorted_wrt_map_filter[OF sorted_vol_list]) (simp add: select_one_SomeD(2))
  then show ?thesis unfolding selected_take by (rule sorted_wrt_take)
qed

lemma analyze_eq:
  "analyze p pm =
     (if selected p pm = [] then Inl (KeyError ''volatility'')
      else Inr (map with_signal (selected p pm)))"
proof -
  have "sort_by volatility (selected p pm) = selected p pm"
    by (rule sort_by_sorted_id[OF sorted_selected])
  moreover have "take N_CARDS (selected p pm) = selected p pm"
    using length_selected by simp
  ultimately show ?thesis by (simp add: analyze_def Let_def)
qed


text \<open>
  Claim C7.  \<open>vol_list\<close> is the list of scored tickers sorted ascending by volatility: it is
  ordered, it is a permutation of the scored tickers, and the tickers of any one volatility
  value keep the order in which they were first seen, so exact ties are handled like any
  other keys.  The selected candidates are in ascending order of volatility already, so
  sorting them again by volatility changes nothing, and neither does the truncation to
  \<open>N_CARDS = 10\<close>: whenever \<open>analyze\<close> returns a table, its rows are the selected candidates
  in the order of the selection loop.  The last line is a ranking with a tie.
\<close>

theorem ranking_stable_and_resort_idempotent:
  "sorted_wrt (\<lambda>a b. fl_le (snd a) (snd b)) (vol_list pm)
   \<and> mset (vol_list pm) = mset (vol_scores pm)
   \<and> filter (\<lambda>e. snd e = v) (vol_list pm) = filter (\<lambda>e. snd e = v) (vol_scores pm)
   \<and> sorted_wrt (\<lambda>a b. fl_le (volatility a) (volatility b)) (selected p pm)
   \<and> sort_by volatility (selected p pm) = selected p pm
   \<and> take N_CARDS (sort_by volatility (selected p pm)) = selected p pm
   \<and> length (selected p pm) \<le> N_CARDS
   \<and> analyze p pm =
       (if selected p pm = [] then Inl (KeyError ''volatility'')
        else Inr (map with_signal (selected p pm)))
   \<and> sort_by snd [(''A'', Fin 1), (''B'', Fin 0), (''C'', Fin 1)]
       = [(''B'', Fin 0), (''A'', Fin 1), (''C'', Fin 1)]"
proof -
  have a: "sort_by volatility (selected p pm) = selected p pm"
    by (rule sort_by_sorted_id[OF sorted_selected])
  have b: "take N_CARDS (sort_by volatility (selected p pm)) = selected p pm"
    unfolding a using length_selected by simp
  have c: "mset (vol_list pm) = mset (vol_scores pm)"
    unfolding vol_list_def by (rule mset_sort_by)
  have d: "filter (\<lambda>e. snd e = v) (vol_list pm) = filter (\<lambda>e. snd e = v) (vol_scores pm)"
    unfolding vol_list_def by (rule sort_by_stable)
  have e: "sort_by snd [(''A'', Fin 1), (''B'', Fin 0), (''C'', Fin 1)]
       = [(''B'', Fin 0), (''A'', Fin 1), (''C'', Fin 1)]"
    by (simp add: sort_by_def)
  show ?thesis
    by (intro conjI sorted_vol_list c d sorted_selected a b length_selected analyze_eq e)
qed

lemma dict_get_distinct:
  "distinct (map fst pm) \<Longrightarrow> (tk, df) \<in> set pm \<Longrightarrow> dict_get pm tk d = df"
  by (simp add: dict_get_def)

lemma select_one_None_iff:
  "(select_one p pm e = None) =
     (unusable (dict_get pm (fst e) empty_frame)
      \<or> length (dropna (column ''Close'' (dict_get pm (fst e) empty_frame))) < 40
      \<or> length (dropna (column ''Close'' (resample_W_last (dict_get pm (fst e) empty_frame)))) < 8)"
proof -
  have ne: "\<not> length (dropna s) < 8 \<Longrightarrow> rsi (dropna s) \<noteq> []" for s
  proof -
    assume "\<not> length (dropna s) < 8"
    moreover have "length (rsi (dropna s)) = length (dropna s)" by (simp add: length_rsi)
    ultimately have "\<not> length (rsi (dropna s)) < 8" by simp
    then show ?thesis by auto
  qed
  have ne40: "\<not> length (dropna s) < 40 \<Longrightarrow> rsi (dropna s) \<noteq> []" for s
    using ne[of s] by simp
  show ?thesis
    using ne ne40
    by (simp add: select_one_def Let_def iloc_last_def)
qed

lemma vol_scores_mem:
  assumes "e \<in> set (vol_scores pm)"
  shows "\<exists>df. (fst e, df) \<in> set pm \<and> \<not> unusable df
            \<and> snd e = annual_vol (column ''Close'' df) \<and> \<not> isnan (snd e)"
  using assms by (auto simp: vol_scores_def)

lemma length_map_filter:
  "length (List.map_filter f xs) = length (filter (\<lambda>x. f x \<noteq> None) xs)"
  by (simp add: List.map_filter_def)

lemma length_filter_sort_by: "length (filter P (sort_by k xs)) = length (filter P xs)"
proof -
  have "mset (filter P (sort_by k xs)) = mset (filter P xs)"
    by (simp add: mset_sort_by)
  then show ?thesis by (metis size_mset)
qed

lemma length_filter_vol_scores:
  "length (filter P (vol_scores pm)) =
   length (filter (\<lambda>x. \<not> unusable (snd x)
                        \<and> \<not> isnan (annual_vol (column ''Close'' (snd x)))
                        \<and> P (fst x, annual_vol (column ''Close'' (snd x)))) pm)"
  by (induction pm) (auto simp: vol_scores_def)

lemma count_survivors:
  assumes "distinct (map fst pm)"
  shows "length (List.map_filter (select_one p pm) (vol_list pm)) = length (filter survives pm)"
proof -
  have "length (List.map_filter (select_one p pm) (vol_list pm)) =
        length (filter (\<lambda>e. select_one p pm e \<noteq> None) (vol_scores pm))"
    unfolding length_map_filter vol_list_def by (rule length_filter_sort_by)
  also have "\<dots> = length (filter (\<lambda>x. \<not> unusable (snd x)
                        \<and> \<not> isnan (annual_vol (column ''Close'' (snd x)))
                        \<and> select_one p pm (fst x, annual_vol (column ''Close'' (snd x))) \<noteq> None) pm)"
    by (rule length_filter_vol_scores)
  also have "\<dots> = length (filter survives pm)"
  proof -
    have "(\<not> unusable (snd x)
             \<and> \<not> isnan (annual_vol (column ''Close'' (snd x)))
             \<and> select_one p pm (fst x, annual_vol (column ''Close'' (snd x))) \<noteq> None)
          = survives x" if "x \<in> set pm" for x
    proof -
      have "(fst x, snd x) \<in> set pm" using that by simp
      then have "dict_get pm (fst x) empty_frame = snd x"
        by (rule dict_get_distinct[OF assms])
      then show ?thesis
        by (auto simp: select_one_None_iff survives_def not_less)
    qed
    then have "filter (\<lambda>x. \<not> unusable (snd x)
                        \<and> \<not> isnan (annual_vol (column ''Close'' (snd x)))
                        \<and> select_one p pm (fst x, annual_vol (column ''Close'' (snd x))) \<noteq> None) pm
          = filter survives pm"
      by (intro filter_cong refl) blast
    then show ?thesis by simp
  qed
  finally show ?thesis .
qed

lemma selected_mem:
  assumes "distinct (map fst pm)" "c \<in> set (selected p pm)"
  shows "\<not> isnan (volatility c) \<and>
         (\<exists>df. (ticker c, df) \<in> set pm
               \<and> volatility c = annual_vol (column ''Close'' df)
               \<and> 40 \<le> length (dropna (column ''Close'' df))
               \<and> 8 \<le> length (dropna (column ''Close'' (resample_W_last df))))"
proof -
  have "c \<in> set (List.map_filter (select_one p pm) (vol_list pm))"
    using assms(2) unfolding selected_take by (rule in_set_takeD)
  then obtain e where e: "e \<in> set (vol_list pm)" "select_one p pm e = Some c"
    by (auto simp: set_map_filter)
  then have "e \<in> set (vol_scores pm)" by (simp add: vol_list_def set_sort_by)
  then obtain df where df: "(fst e, df) \<in> set pm" "snd e = annual_vol (column ''Close'' df)"
    "\<not> isnan (snd e)"
    using vol_scores_mem by blast
  have g: "dict_get pm (fst e) empty_frame = df"
    by (rule dict_get_distinct[OF assms(1) df(1)])
  note d = select_one_SomeD[OF e(2), unfolded g]
  show ?thesis using d(1,2,5,6) df by auto
qed

lemma analyze_Inr:
  assumes "analyze p pm = Inr out"
  shows "out = map with_signal (selected p pm)"
  using assms unfolding analyze_eq by (simp split: if_splits)

lemma distinct_fetch_loop:
  "distinct (map fst out) \<Longrightarrow> distinct (map fst (fst (fetch_loop p raw ts (out, cs))))"
proof (induction ts arbitrary: out cs)
  case Nil
  then show ?case by simp
next
  case (Cons t ts)
  then show ?case
    by (auto split: sum.splits intro!: Cons.IH distinct_update)
qed

lemma distinct_fetch_all: "distinct (map fst (price_map (fetch_all p ts)))"
proof (cases "download p ts")
  case (Inl e)
  then show ?thesis by (simp add: fetch_all_def)
next
  case (Inr raw)
  have "distinct (map fst (fst (fetch_loop p raw ts ([], [Batch ts]))))"
    by (rule distinct_fetch_loop) simp
  then show ?thesis using Inr
    by (auto simp: fetch_all_def split: list.splits prod.splits)
qed


lemma selected_Nil_iff:
  assumes "distinct (map fst pm)"
  shows "(selected p pm = []) = (filter survives pm = [])"
proof -
  have "(selected p pm = []) = (List.map_filter (select_one p pm) (vol_list pm) = [])"
    unfolding selected_take by (simp add: N_CARDS_def)
  also have "\<dots> = (length (List.map_filter (select_one p pm) (vol_list pm)) = 0)" by simp
  also have "\<dots> = (filter survives pm = [])"
    unfolding count_survivors[OF assms] by simp
  finally show ?thesis .
qed

text \<open>
  The invariants of the output.  A run of \<open>analyze_universe\<close> that has an output returns a
  table in which every row has a defined volatility and belongs to a ticker of the fetched
  dictionary whose table has at least 40 daily observations after dropping the missing ones
  and at least 8 weekly observations (the last observation of each calendar week), and
  whose number of rows is the minimum of \<open>N_CARDS = 10\<close> and the number of fetched tickers
  that survive all filters.  The runs without an output are those in which no ticker
  survives: they raise \<open>KeyError\<close>.
\<close>

theorem output_invariants:
  "(filter survives (price_map (fetch_all p NIFTY50)) = []
      \<and> analyze_universe p = Inl (KeyError ''volatility''))
   \<or> (\<exists>out. analyze_universe p = Inr out
         \<and> length out = min N_CARDS (length (filter survives (price_map (fetch_all p NIFTY50))))
         \<and> (\<forall>c\<in>set out.
               \<not> isnan (volatility c) \<and>
               (\<exists>df. (ticker c, df) \<in> set (price_map (fetch_all p NIFTY50))
                  \<and> volatility c = annual_vol (column ''Close'' df)
                  \<and> 40 \<le> length (dropna (column ''Close'' df))
                  \<and> 8 \<le> length (dropna (column ''Close'' (resample_W_last df))))))"
proof (cases "selected p (price_map (fetch_all p NIFTY50)) = []")
  case True
  let ?pm = "price_map (fetch_all p NIFTY50)"
  have d: "distinct (map fst ?pm)" by (rule distinct_fetch_all)
  have "filter survives ?pm = []"
    using True selected_Nil_iff[OF d, of p] by simp
  moreover have "analyze_universe p = Inl (KeyError ''volatility'')"
    unfolding analyze_universe_def analyze_eq using True by simp
  ultimately show ?thesis by blast
next
  case False
  let ?pm = "price_map (fetch_all p NIFTY50)"
  let ?out = "map with_signal (selected p ?pm)"
  have d: "distinct (map fst ?pm)" by (rule distinct_fetch_all)
  have an: "analyze_universe p = Inr ?out"
    unfolding analyze_universe_def analyze_eq using False by simp
  have len: "length ?out = min N_CARDS (length (filter survives ?pm))"
    unfolding selected_take using count_survivors[OF d, of p] by simp
  have inv: "\<forall>c\<in>set ?out.
            \<not> isnan (volatility c) \<and>
            (\<exists>df. (ticker c, df) \<in> set ?pm
               \<and> volatility c = annual_vol (column ''Close'' df)
               \<and> 40 \<le> length (dropna (column ''Close'' df))
               \<and> 8 \<le> length (dropna (column ''Close'' (resample_W_last df))))"
  proof
    fix c assume "c \<in> set ?out"
    then obtain c' where c': "c' \<in> set (selected p ?pm)" "c = with_signal c'"
      by auto
    show "\<not> isnan (volatility c) \<and>
            (\<exists>df. (ticker c, df) \<in> set ?pm
               \<and> volatility c = annual_vol (column ''Close'' df)
               \<and> 40 \<le> length (dropna (column ''Close'' df))
               \<and> 8 \<le> length (dropna (column ''Close'' (resample_W_last df))))"
      using selected_mem[OF d c'(1)] unfolding c'(2) with_signal_fields by simp
  qed
  show ?thesis using an len inv by blast
qed

section \<open>The volatility engine\<close>

lemma annual_vol_short: "length (dropna s) < 10 \<Longrightarrow> annual_vol s = NaN"
  by (simp add: annual_vol_def)

lemma recent_eq_drop: "recent n xs = drop (length xs - n) xs"
proof (cases "n < length xs")
  case True
  have "map (\<lambda>i. xs ! (length xs - n + i)) [0..<n] = drop (length xs - n) xs"
    using True by (intro nth_equalityI) simp_all
  then show ?thesis using True by (simp add: recent_def)
next
  case False
  then show ?thesis by (simp add: recent_def)
qed

lemma window_recent:
  "(if length s \<ge> VOL_DAYS then drop (length s - VOL_DAYS) s else s) = recent 252 s"
  by (simp add: recent_eq_drop VOL_DAYS_def)

lemma fl_div_NaN_right [simp]: "fl_div x NaN = NaN"
  by (cases x) simp_all

lemma length_fl_log_returns [simp]: "length (fl_log_returns w) = length w - 1"
  by (simp add: fl_log_returns_def del: upt_Suc)

lemma length_log_returns [simp]: "length (log_returns w) = length w - 1"
  by (simp add: log_returns_def del: upt_Suc)

lemma fl_log_returns_nth:
  assumes "i < length w - 1"
  shows "fl_log_returns w ! i = fl_log (fl_div (w ! Suc i) (w ! i))"
proof -
  have "map (\<lambda>t. fl_log (fl_div (w ! t) (w ! (t - 1)))) [1..<length w] ! i
        = fl_log (fl_div (w ! (1 + i)) (w ! (1 + i - 1)))"
    using assms by (rule nth_map_upt)
  then show ?thesis by (simp add: fl_log_returns_def del: upt_Suc)
qed

lemma log_returns_nth:
  assumes "i < length w - 1"
  shows "log_returns w ! i = ln (w ! Suc i / w ! i)"
proof -
  have "map (\<lambda>t. ln (w ! t / w ! (t - 1))) [1..<length w] ! i
        = ln (w ! (1 + i) / w ! (1 + i - 1))"
    using assms by (rule nth_map_upt)
  then show ?thesis by (simp add: log_returns_def del: upt_Suc)
qed

lemma log_ret_by_position:
  "dropna (map fl_log (map2 fl_div w (shift1 w))) = dropna (fl_log_returns w)"
proof (cases w)
  case Nil
  then show ?thesis by (simp add: shift1_def fl_log_returns_def)
next
  case (Cons x xs)
  have "map fl_log (map2 fl_div xs (x # xs)) = fl_log_returns (x # xs)"
  proof (rule nth_equalityI)
    show "length (map fl_log (map2 fl_div xs (x # xs))) = length (fl_log_returns (x # xs))"
      by simp
  next
    fix i assume "i < length (map fl_log (map2 fl_div xs (x # xs)))"
    then have i: "i < length xs" by simp
    then have "fl_log_returns (x # xs) ! i = fl_log (fl_div ((x # xs) ! Suc i) ((x # xs) ! i))"
      by (intro fl_log_returns_nth) simp
    moreover have "map fl_log (map2 fl_div xs (x # xs)) ! i = fl_log (fl_div (xs ! i) ((x # xs) ! i))"
      using i by simp
    ultimately show "map fl_log (map2 fl_div xs (x # xs)) ! i = fl_log_returns (x # xs) ! i"
      by simp
  qed
  then have "map fl_log (map2 fl_div w (shift1 w)) = NaN # fl_log_returns w"
    unfolding Cons shift1_def by (simp add: zip_butlast_Cons del: butlast.simps)
  then show ?thesis by (simp add: dropna_def)
qed

lemma annual_vol_by_position:
  "annual_vol s =
     (if length (dropna s) < 10 then NaN
      else if length (dropna (fl_log_returns (recent 252 (dropna s)))) < 2 then NaN
      else fl_mul (std_ddof0 (dropna (fl_log_returns (recent 252 (dropna s))))) (Fin (sqrt 252)))"
  unfolding annual_vol_def Let_def window_recent log_ret_by_position by simp

lemma fl_log_returns_Fin:
  assumes "\<forall>x\<in>set w. 0 < x"
  shows "fl_log_returns (map Fin w) = map Fin (log_returns w)"
proof (rule nth_equalityI)
  show "length (fl_log_returns (map Fin w)) = length (map Fin (log_returns w))" by simp
next
  fix i assume "i < length (fl_log_returns (map Fin w))"
  then have i: "i < length w - 1" by simp
  then have t: "Suc i < length w" "i < length w" by simp_all
  have p: "0 < w ! Suc i" "0 < w ! i" using assms t by simp_all
  define q where "q = w ! Suc i / w ! i"
  have q: "0 < q" unfolding q_def using p by (rule divide_pos_pos)
  have "fl_div (Fin (w ! Suc i)) (Fin (w ! i)) = Fin q"
    using p(2) by (simp add: q_def)
  moreover have "fl_log (Fin q) = Fin (ln q)" using q by simp
  ultimately have "fl_log (fl_div (Fin (w ! Suc i)) (Fin (w ! i))) = Fin (ln q)" by simp
  moreover have "fl_log_returns (map Fin w) ! i
                 = fl_log (fl_div (map Fin w ! Suc i) (map Fin w ! i))"
    using i by (intro fl_log_returns_nth) simp
  moreover have "map Fin w ! Suc i = Fin (w ! Suc i)" "map Fin w ! i = Fin (w ! i)"
    using t by simp_all
  moreover have "map Fin (log_returns w) ! i = Fin (ln q)"
    using i log_returns_nth[OF i] by (simp add: q_def)
  ultimately show "fl_log_returns (map Fin w) ! i = map Fin (log_returns w) ! i" by simp
qed

lemma fl_sum_Fin: "fl_sum (map Fin xs) = Fin (sum_list xs)"
  by (induction xs) (simp_all add: fl_sum_def)

lemma std_ddof0_Fin:
  assumes "xs \<noteq> []"
  shows "std_ddof0 (map Fin xs) = Fin (pop_std xs)"
proof -
  let ?n = "real (length xs)"
  have n: "?n \<noteq> 0" using assms by simp
  have avg: "fl_div (fl_sum (map Fin xs)) (Fin ?n) = Fin (mean xs)"
    using n by (simp add: fl_sum_Fin mean_def)
  have sqr: "map (\<lambda>x. fl_mul (fl_sub (Fin (mean xs)) x) (fl_sub (Fin (mean xs)) x)) (map Fin xs)
             = map Fin (map (\<lambda>x. (x - mean xs)\<^sup>2) xs)"
    by (simp add: fl_sub_def power2_eq_square algebra_simps)
  have nonneg: "0 \<le> (\<Sum>x\<leftarrow>xs. (x - mean xs)\<^sup>2) / ?n"
    by (intro divide_nonneg_nonneg sum_list_nonneg) auto
  have "std_ddof0 (map Fin xs) =
        fl_sqrt (fl_div (fl_sum (map Fin (map (\<lambda>x. (x - mean xs)\<^sup>2) xs))) (Fin ?n))"
    unfolding std_ddof0_def Let_def length_map avg sqr by (rule refl)
  also have "\<dots> = Fin (pop_std xs)"
    unfolding fl_sum_Fin using n nonneg by (simp add: pop_std_def)
  finally show ?thesis .
qed

lemma annual_vol_positive:
  assumes "dropna s = map Fin ps" "\<forall>x\<in>set ps. 0 < x" "10 \<le> length ps"
  shows "annual_vol s = Fin (pop_std (log_returns (recent 252 ps)) * sqrt 252)"
proof -
  let ?w = "recent 252 ps"
  have w: "recent 252 (map Fin ps) = map Fin ?w"
    by (simp add: recent_eq_drop drop_map)
  have pos: "\<forall>x\<in>set ?w. 0 < x"
    using assms(2) by (auto simp: recent_eq_drop dest: in_set_dropD)
  have lw: "10 \<le> length ?w" using assms(3) by (simp add: recent_eq_drop)
  have lr: "length (log_returns ?w) = length ?w - 1" by simp
  have r: "dropna (fl_log_returns (recent 252 (dropna s))) = map Fin (log_returns ?w)"
    unfolding assms(1) w fl_log_returns_Fin[OF pos] by (rule dropna_map_Fin)
  have "0 < length (log_returns ?w)" using lw lr by linarith
  then have ne: "log_returns ?w \<noteq> []" by blast
  have "\<not> length (dropna s) < 10" using assms(1,3) by simp
  moreover have "\<not> length (map Fin (log_returns ?w)) < 2" using lw lr by simp
  ultimately show ?thesis
    unfolding annual_vol_by_position r std_ddof0_Fin[OF ne] by simp
qed

lemma log_returns_replicate:
  assumes "c \<noteq> 0"
  shows "log_returns (replicate m c) = replicate (m - 1) 0"
proof (rule nth_equalityI)
  show "length (log_returns (replicate m c)) = length (replicate (m - 1) (0::real))" by simp
next
  fix i assume "i < length (log_returns (replicate m c))"
  then have i: "i < m - 1" by simp
  then have "log_returns (replicate m c) ! i = ln (replicate m c ! Suc i / replicate m c ! i)"
    by (intro log_returns_nth) simp
  also have "\<dots> = 0" using i assms by simp
  finally show "log_returns (replicate m c) ! i = replicate (m - 1) 0 ! i" using i by simp
qed

lemma pop_std_zeros: "pop_std (replicate k 0) = 0"
proof -
  have m: "mean (replicate k 0) = 0" by (simp add: mean_def sum_list_replicate)
  have "(\<Sum>x\<leftarrow>replicate k (0::real). (x - 0)\<^sup>2) = 0"
    by (simp add: sum_list_replicate)
  then show ?thesis unfolding pop_std_def m by simp
qed

lemma recent_replicate: "recent n (replicate m c) = replicate (min m n) c"
  by (simp add: recent_eq_drop min_def)

lemma annual_vol_constant:
  assumes "0 < c" "10 \<le> n"
  shows "annual_vol (replicate n (Fin c)) = Fin 0"
proof -
  have d: "dropna (replicate n (Fin c)) = map Fin (replicate n c)"
    using dropna_map_Fin[of "replicate n c"] by simp
  have "annual_vol (replicate n (Fin c))
        = Fin (pop_std (log_returns (recent 252 (replicate n c))) * sqrt 252)"
    using assms by (intro annual_vol_positive[OF d]) simp_all
  also have "\<dots> = Fin 0"
    unfolding recent_replicate using assms(1) by (simp add: log_returns_replicate pop_std_zeros)
  finally show ?thesis .
qed

lemma annual_vol_few_returns:
  "length (dropna (fl_log_returns (recent 252 (dropna s)))) < 2 \<Longrightarrow> annual_vol s = NaN"
  by (simp add: annual_vol_by_position)


text \<open>
  Claim C3.  For every closing-price series \<open>annual_vol\<close> drops the missing values, truncates
  to the most recent 252 observations, takes the log returns \<open>ln (price\<^sub>t / price\<^sub>t\<^sub>-\<^sub>1)\<close> of
  the window from its second observation on and drops the undefined ones; it returns \<open>NaN\<close>
  when fewer than 10 observations or fewer than 2 valid log returns remain, and the standard
  deviation with divisor \<open>N\<close> of the log returns times \<open>\<surd>252\<close> otherwise.  On positive prices
  (the prices of the data model) that is the population standard deviation of the log
  returns times \<open>\<surd>252\<close>, and a constant positive series of at least 10 points has
  volatility exactly 0.
\<close>

theorem annual_vol_contract:
  "annual_vol s =
     (if length (dropna s) < 10 then NaN
      else if length (dropna (fl_log_returns (recent 252 (dropna s)))) < 2 then NaN
      else fl_mul (std_ddof0 (dropna (fl_log_returns (recent 252 (dropna s))))) (Fin (sqrt 252)))
   \<and> (length (dropna s) < 10 \<longrightarrow> annual_vol s = NaN)
   \<and> (length (dropna (fl_log_returns (recent 252 (dropna s)))) < 2 \<longrightarrow> annual_vol s = NaN)
   \<and> (dropna s = map Fin ps \<and> (\<forall>x\<in>set ps. 0 < x) \<and> 10 \<le> length ps \<longrightarrow>
        annual_vol s = Fin (pop_std (log_returns (recent 252 ps)) * sqrt 252))
   \<and> (0 < c \<and> 10 \<le> n \<longrightarrow> annual_vol (replicate n (Fin c)) = Fin 0)"
  using annual_vol_by_position[of s] annual_vol_short[of s] annual_vol_few_returns[of s]
    annual_vol_positive[of s ps] annual_vol_constant[of c n]
  by blast


text \<open>
  A witness: a series of two observations, a series of ten zero prices (no valid log
  return), and constant series of 11 and 12 positive prices.
\<close>

theorem annual_vol_contract_witness:
  "length (dropna [Fin 1, NaN, Fin 2]) < 10
   \<and> annual_vol [Fin 1, NaN, Fin 2] = NaN
   \<and> length (dropna (fl_log_returns (recent 252 (dropna (replicate 10 (Fin 0)))))) < 2
   \<and> annual_vol (replicate 10 (Fin 0)) = NaN
   \<and> dropna (replicate 11 (Fin 3)) = map Fin (replicate 11 3)
   \<and> 10 \<le> length (replicate 11 (3::real))
   \<and> annual_vol (replicate 11 (Fin 3)) = Fin (pop_std (log_returns (recent 252 (replicate 11 3))) * sqrt 252)
   \<and> (0::real) < 3 \<and> (10::nat) \<le> 12
   \<and> annual_vol (replicate 12 (Fin 3)) = Fin 0"
proof -
  have a: "length (dropna [Fin 1, NaN, Fin 2]) < 10" by (simp add: dropna_def)
  have z: "dropna (replicate 10 (Fin 0)) = replicate 10 (Fin 0)"
    using dropna_map_Fin[of "replicate 10 0"] by simp
  have "fl_log_returns (replicate 10 (Fin 0)) = replicate 9 NaN"
    by (intro nth_equalityI) (simp_all add: fl_log_returns_nth)
  then have b: "length (dropna (fl_log_returns (recent 252 (dropna (replicate 10 (Fin 0)))))) < 2"
    unfolding z recent_replicate by (simp add: dropna_def)
  have c: "dropna (replicate 11 (Fin 3)) = map Fin (replicate 11 3)"
    using dropna_map_Fin[of "replicate 11 3"] by simp
  have d: "\<forall>x\<in>set (replicate 11 (3::real)). 0 < x" by simp
  have e: "10 \<le> length (replicate 11 (3::real))" by simp
  note t1 = annual_vol_contract[of "[Fin 1, NaN, Fin 2]", THEN conjunct2, THEN conjunct1, rule_format, OF a]
  note t2 = annual_vol_contract[of "replicate 10 (Fin 0)", THEN conjunct2, THEN conjunct2,
      THEN conjunct1, rule_format, OF b]
  note t3 = annual_vol_contract[of "replicate 11 (Fin 3)" "replicate 11 3", THEN conjunct2,
      THEN conjunct2, THEN conjunct2, THEN conjunct1, rule_format, OF conjI[OF c conjI[OF d e]]]
  have f: "(0::real) < 3 \<and> (10::nat) \<le> 12" by simp
  note t4 = annual_vol_contract[of _ _ 3 12, THEN conjunct2, THEN conjunct2, THEN conjunct2,
      THEN conjunct2, rule_format, OF f]
  show ?thesis using a b c e t1 t2 t3 t4 by simp
qed


section \<open>The data fetch\<close>

lemma fetch_loop_calls:
  "snd (fetch_loop p raw ts (out, cs)) = cs @ map Single (filter (\<lambda>t. isl (sub raw t)) ts)"
  by (induction ts arbitrary: out cs) (simp_all split: sum.splits)

lemma fetch_loop_map_of:
  "map_of (fst (fetch_loop p raw ts (out, cs))) t =
     (if t \<in> set ts
      then Some (case sub raw t of
                   Inr df \<Rightarrow> dropna_all df
                 | Inl _ \<Rightarrow> (case download_one p t of Inr df2 \<Rightarrow> df2 | Inl _ \<Rightarrow> empty_frame))
      else map_of out t)"
proof (induction ts arbitrary: out cs)
  case Nil
  then show ?case by simp
next
  case (Cons u us)
  show ?case
    by (cases "sub raw u"; cases "download_one p u")
       (simp_all add: Cons.IH update_conv')
qed

lemma fetch_all_multi:
  assumes "download p ts = Inr raw" "length ts \<noteq> 1"
  shows "price_map (fetch_all p ts) = fst (fetch_loop p raw ts ([], [Batch ts]))"
    and "calls (fetch_all p ts) = snd (fetch_loop p raw ts ([], [Batch ts]))"
proof -
  have "\<And>t. ts \<noteq> [t]" using assms(2) by auto
  then have "fetch_all p ts =
       (let (out, cs) = fetch_loop p raw ts ([], [Batch ts])
        in \<lparr>price_map = out, calls = cs, last_fetch_error = None\<rparr>)"
    using assms(1) by (cases ts; cases "tl ts") (simp_all add: fetch_all_def)
  then show "price_map (fetch_all p ts) = fst (fetch_loop p raw ts ([], [Batch ts]))"
    and "calls (fetch_all p ts) = snd (fetch_loop p raw ts ([], [Batch ts]))"
    by (simp_all add: split_def Let_def)
qed

lemma count_list_map_Single:
  "count_list (map Single xs) (Single t) = count_list xs t"
  by (induction xs) simp_all

lemma count_list_filter:
  "count_list (filter P xs) t = (if P t then count_list xs t else 0)"
  by (induction xs) simp_all

lemma count_list_distinct: "distinct xs \<Longrightarrow> t \<in> set xs \<Longrightarrow> count_list xs t = 1"
  by (induction xs) (auto simp: count_list_0_iff)

lemma fetch_all_single_calls:
  assumes "download p ts = Inr raw" "length ts \<noteq> 1"
  shows "count_list (calls (fetch_all p ts)) (Single t) =
           (if isl (sub raw t) then count_list ts t else 0)"
  unfolding fetch_all_multi(2)[OF assms] fetch_loop_calls
  by (simp add: count_list_map_Single count_list_filter)

lemma vol_scores_skip_empty:
  "vol_scores (filter (\<lambda>e. \<not> frame_empty (snd e)) pm) = vol_scores pm"
proof -
  have "filter (\<lambda>(tk, df). \<not> unusable df) (filter (\<lambda>e. \<not> frame_empty (snd e)) pm)
        = filter (\<lambda>(tk, df). \<not> unusable df) pm"
    by (induction pm) (auto simp: unusable_def)
  then show ?thesis by (simp add: vol_scores_def)
qed

lemma dict_get_skip_empty:
  assumes "distinct (map fst pm)" "(tk, df) \<in> set pm" "\<not> frame_empty df"
  shows "dict_get (filter (\<lambda>e. \<not> frame_empty (snd e)) pm) tk d = dict_get pm tk d"
proof -
  have "distinct (map fst (filter (\<lambda>e. \<not> frame_empty (snd e)) pm))"
    using assms(1) by (rule distinct_map_filter)
  moreover have "(tk, df) \<in> set (filter (\<lambda>e. \<not> frame_empty (snd e)) pm)"
    using assms(2,3) by simp
  ultimately have "dict_get (filter (\<lambda>e. \<not> frame_empty (snd e)) pm) tk d = df"
    by (rule dict_get_distinct)
  moreover have "dict_get pm tk d = df" using assms(1,2) by (rule dict_get_distinct)
  ultimately show ?thesis by simp
qed

lemma select_one_cong:
  "dict_get pm' (fst e) empty_frame = dict_get pm (fst e) empty_frame \<Longrightarrow>
   select_one p pm' e = select_one p pm e"
  by (simp add: select_one_def)

lemma map_filter_cong:
  "(\<And>x. x \<in> set xs \<Longrightarrow> f x = g x) \<Longrightarrow> List.map_filter f xs = List.map_filter g xs"
  by (simp add: List.map_filter_def cong: filter_cong map_cong)

lemma analyze_skip_empty:
  assumes "distinct (map fst pm)"
  shows "analyze p (filter (\<lambda>e. \<not> frame_empty (snd e)) pm) = analyze p pm"
proof -
  let ?pm' = "filter (\<lambda>e. \<not> frame_empty (snd e)) pm"
  have vl: "vol_list ?pm' = vol_list pm" by (simp add: vol_list_def vol_scores_skip_empty)
  have "select_one p ?pm' e = select_one p pm e" if "e \<in> set (vol_list pm)" for e
  proof -
    have "e \<in> set (vol_scores pm)" using that by (simp add: vol_list_def set_sort_by)
    then obtain df where "(fst e, df) \<in> set pm" "\<not> unusable df"
      using vol_scores_mem by blast
    then have "dict_get ?pm' (fst e) empty_frame = dict_get pm (fst e) empty_frame"
      using assms by (intro dict_get_skip_empty) (auto simp: unusable_def)
    then show ?thesis by (rule select_one_cong)
  qed
  then have "List.map_filter (select_one p ?pm') (vol_list pm)
             = List.map_filter (select_one p pm) (vol_list pm)"
    by (rule map_filter_cong)
  then have "selected p ?pm' = selected p pm" by (simp add: selected_take vl)
  then show ?thesis by (simp add: analyze_eq)
qed

lemma update_fresh: "k \<notin> fst ` set al \<Longrightarrow> AList.update k v al = al @ [(k, v)]"
  by (induction al) auto

lemma fetch_loop_step:
  "fetch_loop p raw (t # ts) (out, cs) =
     fetch_loop p raw ts (AList.update t (stored p raw t) out,
                          if isl (sub raw t) then cs @ [Single t] else cs)"
  by (simp add: stored_def split: sum.splits)

lemma fetch_loop_fresh:
  assumes "distinct ts" "set ts \<inter> fst ` set out = {}"
  shows "fst (fetch_loop p raw ts (out, cs)) = out @ map (\<lambda>t. (t, stored p raw t)) ts"
  using assms
proof (induction ts arbitrary: out cs)
  case Nil
  then show ?case by simp
next
  case (Cons t ts)
  have fresh: "t \<notin> fst ` set out" using Cons.prems(2) by auto
  have u: "AList.update t (stored p raw t) out = out @ [(t, stored p raw t)]"
    using fresh by (rule update_fresh)
  have "set ts \<inter> fst ` set (out @ [(t, stored p raw t)]) = {}"
    using Cons.prems by auto
  then have "fst (fetch_loop p raw ts (out @ [(t, stored p raw t)], cs')) =
             (out @ [(t, stored p raw t)]) @ map (\<lambda>t. (t, stored p raw t)) ts" for cs'
    using Cons.prems(1) by (intro Cons.IH) simp_all
  then show ?case unfolding fetch_loop_step u by simp
qed

lemma price_map_in_order:
  assumes "download p ts = Inr raw" "length ts \<noteq> 1" "distinct ts"
  shows "price_map (fetch_all p ts) = map (\<lambda>t. (t, stored p raw t)) ts"
  unfolding fetch_all_multi(1)[OF assms(1,2)]
  using fetch_loop_fresh[OF assms(3), of "[]" p raw "[Batch ts]"] by simp

lemma distinct_NIFTY50: "distinct NIFTY50"
  by (simp add: NIFTY50_def)

lemma length_NIFTY50: "length NIFTY50 = 45"
  by (simp add: NIFTY50_def)


text \<open>
  The fallback of the fetch.  Let the batch download of several distinct tickers succeed.
  For every ticker of the batch: when its table cannot be extracted from the batch result,
  \<open>fetch_all\<close> makes exactly one single-ticker retrieval for it, and none otherwise; the
  dictionary maps the ticker to the extracted table, else to the table of the single
  retrieval, else - when both fail - to the empty table, and \<open>fetch_all\<close> itself returns in
  every case.  The tickers with an empty table add nothing to the analysis: it is the
  analysis of the dictionary without them.
\<close>

theorem fetch_all_fallback:
  assumes "download p ts = Inr raw" "length ts \<noteq> 1" "distinct ts" "t \<in> set ts"
  shows "(isl (sub raw t) \<longrightarrow> count_list (calls (fetch_all p ts)) (Single t) = 1)
       \<and> (\<not> isl (sub raw t) \<longrightarrow> count_list (calls (fetch_all p ts)) (Single t) = 0)
       \<and> (\<forall>df. sub raw t = Inr df \<longrightarrow>
             map_of (price_map (fetch_all p ts)) t = Some (dropna_all df))
       \<and> (\<forall>df2. isl (sub raw t) \<and> download_one p t = Inr df2 \<longrightarrow>
             map_of (price_map (fetch_all p ts)) t = Some df2)
       \<and> (isl (sub raw t) \<and> isl (download_one p t) \<longrightarrow>
             map_of (price_map (fetch_all p ts)) t = Some empty_frame)
       \<and> analyze p (filter (\<lambda>e. \<not> frame_empty (snd e)) (price_map (fetch_all p ts)))
           = analyze p (price_map (fetch_all p ts))"
proof -
  have c: "count_list (calls (fetch_all p ts)) (Single t) = (if isl (sub raw t) then 1 else 0)"
    using fetch_all_single_calls[OF assms(1,2), of t] count_list_distinct[OF assms(3,4)] by simp
  have m: "map_of (price_map (fetch_all p ts)) t =
       Some (case sub raw t of
               Inr df \<Rightarrow> dropna_all df
             | Inl _ \<Rightarrow> (case download_one p t of Inr df2 \<Rightarrow> df2 | Inl _ \<Rightarrow> empty_frame))"
    unfolding fetch_all_multi(1)[OF assms(1,2)] fetch_loop_map_of using assms(4) by simp
  have a: "analyze p (filter (\<lambda>e. \<not> frame_empty (snd e)) (price_map (fetch_all p ts)))
           = analyze p (price_map (fetch_all p ts))"
    by (rule analyze_skip_empty[OF distinct_fetch_all])
  show ?thesis using c m a by (auto simp: isl_def)
qed


section \<open>Constant price series\<close>

lemma isnan_iff: "isnan x = (x = NaN)"
  by (cases x) simp_all

lemma set_dropna: "set (dropna xs) = set xs - {NaN}"
  by (auto simp: dropna_def isnan_iff)

lemma last_valid_cases: "last_valid xs = NaN \<or> last_valid xs \<in> set (dropna xs)"
proof (cases "rev (dropna xs)")
  case Nil
  then show ?thesis by (simp add: last_valid_def)
next
  case (Cons y ys)
  then have "y \<in> set (rev (dropna xs))" by simp
  then show ?thesis using Cons by (simp add: last_valid_def)
qed

lemma column_resample:
  "set (column l (resample_W_last df)) \<subseteq>
     insert NaN (set (dropna (column l df)))"
proof (cases "sort_key fst (rows df)")
  case Nil
  then show ?thesis by (simp add: resample_W_last_def column_def)
next
  case (Cons r0 rs')
  let ?rs = "sort_key fst (rows df)"
  have sub: "set (dropna (map (\<lambda>(d, r). r l) (filter P ?rs))) \<subseteq> set (dropna (column l df))" for P
  proof -
    have "set (filter P ?rs) \<subseteq> set (rows df)" by auto
    then have "set (map (\<lambda>(d, r). r l) (filter P ?rs)) \<subseteq> set (column l df)"
      unfolding column_def by auto
    then show ?thesis unfolding set_dropna by blast
  qed
  have "last_valid (map (\<lambda>(d, r). r l) (filter P ?rs)) \<in> insert NaN (set (dropna (column l df)))" for P
    using last_valid_cases[of "map (\<lambda>(d, r). r l) (filter P ?rs)"] sub[of P] by blast
  then show ?thesis
    using Cons by (auto simp: resample_W_last_def column_def Let_def simp del: set_filter filter_sort)
qed

lemma weekly_subset:
  "set (dropna (column l (resample_W_last df))) \<subseteq> set (dropna (column l df))"
  using column_resample[of l df] unfolding set_dropna[of "column l (resample_W_last df)"] by blast

lemma all_same_replicate:
  assumes "set xs \<subseteq> {a}"
  shows "xs = replicate (length xs) a"
  using assms by (induction xs) simp_all

lemma rsi_constant_nth:
  assumes "i < n"
  shows "rsi (replicate n (Fin c)) ! i = NaN"
proof -
  have "rsi (map Fin (replicate n c)) ! i = NaN"
    using rsi_Fin_NaN_iff[of i "replicate n c"] assms by simp
  then show ?thesis by simp
qed

lemma iloc_last_rsi_constant:
  assumes "0 < n"
  shows "iloc_last (rsi (replicate n (Fin c))) = Inr NaN"
proof -
  have d: "dropna (replicate n (Fin c)) = replicate n (Fin c)"
    using dropna_map_Fin[of "replicate n c"] by simp
  have l: "length (rsi (replicate n (Fin c))) = n"
    by (simp add: length_rsi d)
  then have ne: "rsi (replicate n (Fin c)) \<noteq> []" using assms by auto
  have "last (rsi (replicate n (Fin c))) = rsi (replicate n (Fin c)) ! (n - 1)"
    using last_conv_nth[OF ne] l by simp
  also have "\<dots> = NaN" using assms by (intro rsi_constant_nth) simp
  finally show ?thesis using ne by (simp add: iloc_last_def)
qed

lemma select_one_constant:
  assumes "dict_get pm tk empty_frame = df" "\<not> unusable df"
    and "dropna (column ''Close'' df) = replicate n (Fin c)" "40 \<le> n"
    and "8 \<le> length (dropna (column ''Close'' (resample_W_last df)))"
  shows "select_one p pm (tk, vol) =
           Some \<lparr>ticker = tk, company = company_name p tk, daily_rsi = NaN, weekly_rsi = NaN,
                 volatility = vol, series_daily = replicate 40 (Fin c)\<rparr>"
proof -
  let ?weekly = "dropna (column ''Close'' (resample_W_last df))"
  have "set ?weekly \<subseteq> {Fin c}"
    using weekly_subset[of "''Close''" df] unfolding assms(3) by auto
  then have w: "?weekly = replicate (length ?weekly) (Fin c)" by (rule all_same_replicate)
  have "0 < n" using assms(4) by linarith
  then have d: "iloc_last (rsi (replicate n (Fin c))) = Inr NaN"
    by (rule iloc_last_rsi_constant)
  have "0 < length ?weekly" using assms(5) by linarith
  then have "iloc_last (rsi (replicate (length ?weekly) (Fin c))) = Inr NaN"
    by (rule iloc_last_rsi_constant)
  then have wr: "iloc_last (rsi ?weekly) = Inr NaN" using w by simp
  have t: "drop (n - 40) (replicate n (Fin c)) = replicate 40 (Fin c)"
    using assms(4) by simp
  show ?thesis
    unfolding select_one_def
    using assms(2,4,5) d wr t by (simp add: Let_def assms(1) assms(3))
qed

lemma signal_of_NaN: "signal_of NaN NaN = (''Neutral'', PALETTE_yellow, False)"
  by (simp add: signal_of_def between_def fl_gt_def)

lemma rules_NaN:
  "\<not> rule1 NaN NaN" "\<not> rule2 NaN NaN" "\<not> rule3 NaN NaN" "\<not> rule4 NaN NaN" "\<not> rule5 NaN NaN"
  by (simp_all add: rule_defs fl_gt_def)


section \<open>A run on a market of one constant price\<close>

lemma map_const_replicate: "map (\<lambda>x. k) xs = replicate (length xs) k"
  by (induction xs) simp_all

lemma column_weekday_frame: "column l (weekday_frame n (\<lambda>i. c)) = replicate n (Fin c)"
  by (simp add: column_def weekday_frame_def comp_def map_const_replicate)

lemma column_flat_frame: "column l (flat_frame n c) = replicate n (Fin c)"
  by (simp add: column_def flat_frame_def comp_def map_const_replicate)

lemma dropna_replicate_Fin: "dropna (replicate n (Fin c)) = replicate n (Fin c)"
  using dropna_map_Fin[of "replicate n c"] by simp

lemma dropna_all_weekday_frame: "dropna_all (weekday_frame n f) = weekday_frame n f"
  by (simp add: dropna_all_def weekday_frame_def filter_map comp_def)

lemma usable_weekday_frame: "0 < n \<Longrightarrow> \<not> unusable (weekday_frame n f)"
  by (simp add: unusable_def frame_empty_def weekday_frame_def)

lemma unusable_empty_frame: "unusable empty_frame"
  by (simp add: unusable_def frame_empty_def empty_frame_def)

lemma weekly_weekday_40:
  "length (dropna (column ''Close'' (resample_W_last (weekday_frame 40 (\<lambda>i. 5))))) = 8"
  by code_simp

lemma annual_vol_dropna: "annual_vol (dropna s) = annual_vol s"
  by (simp add: annual_vol_def)

lemma stored_flat_market:
  "stored flat_market flat_raw t =
     (if t = ''TCS.NS'' then weekday_frame 40 (\<lambda>i. 5) else empty_frame)"
  by (simp add: stored_def flat_raw_def flat_market_def dropna_all_weekday_frame)

lemma price_map_flat_market:
  "price_map (fetch_all flat_market NIFTY50) =
     map (\<lambda>t. (t, if t = ''TCS.NS'' then weekday_frame 40 (\<lambda>i. 5) else empty_frame)) NIFTY50"
proof -
  have d: "download flat_market NIFTY50 = Inr flat_raw" by (simp add: flat_market_def)
  have l: "length NIFTY50 \<noteq> 1" by (simp add: length_NIFTY50)
  show ?thesis
    unfolding price_map_in_order[OF d l distinct_NIFTY50] stored_flat_market ..
qed

lemma only_TCS: "filter (\<lambda>t. t = ''TCS.NS'') NIFTY50 = [''TCS.NS'']"
  by (simp add: NIFTY50_def)

lemma usable_flat_market:
  "filter (\<lambda>(tk, df). \<not> unusable df) (price_map (fetch_all flat_market NIFTY50)) =
     [(''TCS.NS'', weekday_frame 40 (\<lambda>i. 5))]"
proof -
  have "(\<lambda>t. \<not> unusable (if t = ''TCS.NS'' then weekday_frame 40 (\<lambda>i. 5) else empty_frame))
        = (\<lambda>t. t = ''TCS.NS'')"
    by (auto simp: usable_weekday_frame unusable_empty_frame)
  then show ?thesis
    unfolding price_map_flat_market by (simp add: filter_map comp_def only_TCS)
qed

lemma vol_flat: "annual_vol (column ''Close'' (weekday_frame 40 (\<lambda>i. 5))) = Fin 0"
  unfolding column_weekday_frame by (rule annual_vol_constant) simp_all

lemma vol_list_flat_market:
  "vol_list (price_map (fetch_all flat_market NIFTY50)) = [(''TCS.NS'', Fin 0)]"
  unfolding vol_list_def vol_scores_def usable_flat_market
  by (simp add: vol_flat sort_by_def)

lemma TCS_in_flat_market:
  "(''TCS.NS'', weekday_frame 40 (\<lambda>i. 5)) \<in> set (price_map (fetch_all flat_market NIFTY50))"
proof -
  have "(''TCS.NS'', weekday_frame 40 (\<lambda>i. 5)) \<in>
        set (filter (\<lambda>(tk, df). \<not> unusable df) (price_map (fetch_all flat_market NIFTY50)))"
    unfolding usable_flat_market by simp
  then show ?thesis by simp
qed

lemma select_one_flat_market:
  "select_one flat_market (price_map (fetch_all flat_market NIFTY50)) (''TCS.NS'', Fin 0)
     = Some flat_candidate"
proof -
  let ?pm = "price_map (fetch_all flat_market NIFTY50)"
  let ?W = "weekday_frame 40 (\<lambda>i. 5)"
  have g: "dict_get ?pm ''TCS.NS'' empty_frame = ?W"
    by (rule dict_get_distinct[OF distinct_fetch_all TCS_in_flat_market])
  have u: "\<not> unusable ?W" by (rule usable_weekday_frame) simp
  have d: "dropna (column ''Close'' ?W) = replicate 40 (Fin 5)"
    by (simp add: column_weekday_frame dropna_replicate_Fin)
  have w: "8 \<le> length (dropna (column ''Close'' (resample_W_last ?W)))"
    by (simp add: weekly_weekday_40)
  have n: "company_name flat_market ''TCS.NS'' = []"
    by (simp add: company_name_def flat_market_def)
  show ?thesis
    using select_one_constant[OF g u d _ w, of flat_market "Fin 0"] n
    by (simp add: flat_candidate_def)
qed

lemma selected_flat_market:
  "selected flat_market (price_map (fetch_all flat_market NIFTY50)) = [flat_candidate]"
  unfolding selected_def vol_list_flat_market
  by (simp add: select_one_flat_market N_CARDS_def)

lemma analyze_universe_flat_market:
  "analyze_universe flat_market =
     Inr [\<lparr>ticker = ''TCS.NS'', company = [], daily_rsi = NaN, weekly_rsi = NaN,
           volatility = Fin 0, series_daily = replicate 40 (Fin 5),
           signal = ''Neutral'', color = PALETTE_yellow, cross = False\<rparr>]"
  unfolding analyze_universe_def analyze_eq selected_flat_market
  by (simp add: with_signal_def flat_candidate_def signal_of_NaN)

lemma survives_usable:
  "filter survives pm = filter survives (filter (\<lambda>(tk, df). \<not> unusable df) pm)"
  by (induction pm) (auto simp: survives_def)

lemma survivors_flat_market:
  "length (filter survives (price_map (fetch_all flat_market NIFTY50))) \<le> 1"
  using survives_usable[of "price_map (fetch_all flat_market NIFTY50)"]
  unfolding usable_flat_market by simp


text \<open>
  Claim C5 as stated fails in its last part: the caller does not check the RSI values for
  \<open>NaN\<close>.  On a constant price both RSI values are \<open>NaN\<close>; the conversion to a float raises
  nothing, the candidate is selected, and the signal block labels it from the \<open>NaN\<close> values.
\<close>

theorem nan_rsi_unchecked_counterexample:
  "analyze_universe flat_market =
     Inr [\<lparr>ticker = ''TCS.NS'', company = [], daily_rsi = NaN, weekly_rsi = NaN,
           volatility = Fin 0, series_daily = replicate 40 (Fin 5),
           signal = ''Neutral'', color = PALETTE_yellow, cross = False\<rparr>]"
  by (rule analyze_universe_flat_market)


text \<open>
  An instance of the invariants: the run on \<open>flat_market\<close> returns one row, for the one
  ticker that survives the filters, with 40 daily and 8 weekly observations.
\<close>

theorem output_invariants_witness:
  "analyze_universe flat_market =
     Inr [\<lparr>ticker = ''TCS.NS'', company = [], daily_rsi = NaN, weekly_rsi = NaN,
           volatility = Fin 0, series_daily = replicate 40 (Fin 5),
           signal = ''Neutral'', color = PALETTE_yellow, cross = False\<rparr>]
   \<and> min N_CARDS (length (filter survives (price_map (fetch_all flat_market NIFTY50)))) = 1
   \<and> 40 \<le> length (dropna (column ''Close'' (weekday_frame 40 (\<lambda>i. 5))))
   \<and> 8 \<le> length (dropna (column ''Close'' (resample_W_last (weekday_frame 40 (\<lambda>i. 5)))))"
proof -
  have "analyze_universe flat_market \<noteq> Inl (KeyError ''volatility'')"
    unfolding analyze_universe_flat_market by simp
  then obtain out where out: "analyze_universe flat_market = Inr out"
    "length out = min N_CARDS (length (filter survives (price_map (fetch_all flat_market NIFTY50))))"
    using output_invariants[of flat_market] by blast
  have "length out = 1" using out(1) unfolding analyze_universe_flat_market by auto
  then have "min N_CARDS (length (filter survives (price_map (fetch_all flat_market NIFTY50)))) = 1"
    using out(2) by simp
  moreover have "40 \<le> length (dropna (column ''Close'' (weekday_frame 40 (\<lambda>i. 5))))"
    by (simp add: column_weekday_frame dropna_replicate_Fin)
  moreover have "8 \<le> length (dropna (column ''Close'' (resample_W_last (weekday_frame 40 (\<lambda>i. 5)))))"
    by (simp add: weekly_weekday_40)
  ultimately show ?thesis using analyze_universe_flat_market by blast
qed

text \<open>
  An instance of the fallback: of three tickers, \<^verbatim>\<open>A\<close> is extracted from the batch result (no
  single retrieval), \<^verbatim>\<open>B\<close> is retrieved singly, once, and \<^verbatim>\<open>C\<close> fails both ways, after one
  single retrieval, and is mapped to the empty table.
\<close>

theorem fetch_all_fallback_witness:
  "download patchy [''A'', ''B'', ''C''] = Inr patchy_raw
   \<and> length [''A'', ''B'', ''C''] \<noteq> 1
   \<and> distinct [''A'', ''B'', ''C'']
   \<and> ''C'' \<in> set [''A'', ''B'', ''C'']
   \<and> isl (sub patchy_raw ''C'') \<and> isl (download_one patchy ''C'')
   \<and> count_list (calls (fetch_all patchy [''A'', ''B'', ''C''])) (Single ''C'') = 1
   \<and> map_of (price_map (fetch_all patchy [''A'', ''B'', ''C''])) ''C'' = Some empty_frame
   \<and> isl (sub patchy_raw ''B'') \<and> download_one patchy ''B'' = Inr (flat_frame 2 7)
   \<and> count_list (calls (fetch_all patchy [''A'', ''B'', ''C''])) (Single ''B'') = 1
   \<and> map_of (price_map (fetch_all patchy [''A'', ''B'', ''C''])) ''B'' = Some (flat_frame 2 7)
   \<and> \<not> isl (sub patchy_raw ''A'')
   \<and> count_list (calls (fetch_all patchy [''A'', ''B'', ''C''])) (Single ''A'') = 0"
proof -
  have d: "download patchy [''A'', ''B'', ''C''] = Inr patchy_raw" by (simp add: patchy_def)
  have l: "length [''A'', ''B'', ''C''] \<noteq> 1" by simp
  have di: "distinct [''A'', ''B'', ''C'']" by simp
  have c: "''C'' \<in> set [''A'', ''B'', ''C'']" and b: "''B'' \<in> set [''A'', ''B'', ''C'']"
    and a: "''A'' \<in> set [''A'', ''B'', ''C'']" by simp_all
  have fc: "isl (sub patchy_raw ''C'')" "isl (download_one patchy ''C'')"
    by (simp_all add: patchy_raw_def patchy_def)
  have fb: "isl (sub patchy_raw ''B'')" "download_one patchy ''B'' = Inr (flat_frame 2 7)"
    by (simp_all add: patchy_raw_def patchy_def)
  have fa: "\<not> isl (sub patchy_raw ''A'')" by (simp add: patchy_raw_def)
  note tc = fetch_all_fallback[OF d l di c]
  note tb = fetch_all_fallback[OF d l di b]
  note ta = fetch_all_fallback[OF d l di a]
  have "count_list (calls (fetch_all patchy [''A'', ''B'', ''C''])) (Single ''C'') = 1"
    using tc fc by blast
  moreover have "map_of (price_map (fetch_all patchy [''A'', ''B'', ''C''])) ''C'' = Some empty_frame"
    using tc fc by blast
  moreover have "count_list (calls (fetch_all patchy [''A'', ''B'', ''C''])) (Single ''B'') = 1"
    using tb fb by blast
  moreover have "map_of (price_map (fetch_all patchy [''A'', ''B'', ''C''])) ''B'' = Some (flat_frame 2 7)"
    using tb fb by blast
  moreover have "count_list (calls (fetch_all patchy [''A'', ''B'', ''C''])) (Single ''A'') = 0"
    using ta fa by blast
  ultimately show ?thesis using d l di c fc fb fa by blast
qed


section \<open>Runs in which no ticker survives\<close>

lemma sorted_constant_keys:
  "sorted_wrt (\<lambda>a b. fl_le (snd a) (snd b)) (map (\<lambda>t. (t, Fin 0)) xs)"
  by (induction xs) simp_all

lemma stored_all_fail: "stored all_fail all_fail_raw t = empty_frame"
  by (simp add: stored_def all_fail_def all_fail_raw_def)

lemma price_map_all_fail:
  "price_map (fetch_all all_fail NIFTY50) = map (\<lambda>t. (t, empty_frame)) NIFTY50"
proof -
  have d: "download all_fail NIFTY50 = Inr all_fail_raw" by (simp add: all_fail_def)
  have l: "length NIFTY50 \<noteq> 1" by (simp add: length_NIFTY50)
  show ?thesis
    unfolding price_map_in_order[OF d l distinct_NIFTY50] stored_all_fail ..
qed

lemma calls_all_fail:
  "calls (fetch_all all_fail NIFTY50) = Batch NIFTY50 # map Single NIFTY50"
proof -
  have d: "download all_fail NIFTY50 = Inr all_fail_raw" by (simp add: all_fail_def)
  have l: "length NIFTY50 \<noteq> 1" by (simp add: length_NIFTY50)
  have "filter (\<lambda>t. isl (sub all_fail_raw t)) NIFTY50 = NIFTY50"
    by (simp add: all_fail_raw_def)
  then show ?thesis
    unfolding fetch_all_multi(2)[OF d l] fetch_loop_calls by simp
qed

lemma vol_list_all_fail: "vol_list (price_map (fetch_all all_fail NIFTY50)) = []"
proof -
  have "filter (\<lambda>(tk, df). \<not> unusable df) (map (\<lambda>t. (t, empty_frame)) NIFTY50) = []"
    by (simp add: filter_map comp_def unusable_empty_frame)
  then show ?thesis
    unfolding price_map_all_fail vol_list_def vol_scores_def by (simp add: sort_by_def)
qed


text \<open>
  Claim C8.  The claim fails in its last part on a run in which every ticker fails both
  ways.  With the provider \<open>all_fail\<close> the batch download succeeds, no table can be extracted
  from its result and every single retrieval raises: \<open>fetch_all\<close> makes the batch call and
  one single retrieval per ticker, raises nothing and maps every ticker to the empty table;
  downstream every ticker is skipped, no volatility is scored, and the run fails all the
  same: \<open>sort_values\<close> raises \<open>KeyError\<close> on the table without columns, before the test
  \<^verbatim>\<open>if df.empty: return df\<close> that was written for this case.
\<close>

theorem all_fail_run_fails:
  "download all_fail NIFTY50 = Inr all_fail_raw
   \<and> calls (fetch_all all_fail NIFTY50) = Batch NIFTY50 # map Single NIFTY50
   \<and> price_map (fetch_all all_fail NIFTY50) = map (\<lambda>t. (t, empty_frame)) NIFTY50
   \<and> vol_list (price_map (fetch_all all_fail NIFTY50)) = []
   \<and> analyze_universe all_fail = Inl (KeyError ''volatility'')"
proof -
  have d: "download all_fail NIFTY50 = Inr all_fail_raw" by (simp add: all_fail_def)
  have "selected all_fail (price_map (fetch_all all_fail NIFTY50)) = []"
    unfolding selected_def vol_list_all_fail by simp
  then have "analyze_universe all_fail = Inl (KeyError ''volatility'')"
    unfolding analyze_universe_def by (rule analyze_no_candidates)
  then show ?thesis using d calls_all_fail price_map_all_fail vol_list_all_fail by blast
qed

lemma stored_short_history: "stored short_history short_raw t = weekday_frame 39 (\<lambda>i. 5)"
  by (simp add: stored_def short_history_def short_raw_def dropna_all_weekday_frame)

lemma price_map_short_history:
  "price_map (fetch_all short_history NIFTY50)
     = map (\<lambda>t. (t, weekday_frame 39 (\<lambda>i. 5))) NIFTY50"
proof -
  have d: "download short_history NIFTY50 = Inr short_raw" by (simp add: short_history_def)
  have l: "length NIFTY50 \<noteq> 1" by (simp add: length_NIFTY50)
  show ?thesis
    unfolding price_map_in_order[OF d l distinct_NIFTY50] stored_short_history ..
qed

lemma vol_short: "annual_vol (column ''Close'' (weekday_frame 39 (\<lambda>i. 5))) = Fin 0"
  unfolding column_weekday_frame by (rule annual_vol_constant) simp_all

lemma vol_list_short_history:
  "vol_list (price_map (fetch_all short_history NIFTY50)) = map (\<lambda>t. (t, Fin 0)) NIFTY50"
proof -
  have u: "\<not> unusable (weekday_frame 39 (\<lambda>i. 5))" by (rule usable_weekday_frame) simp
  have "vol_scores (price_map (fetch_all short_history NIFTY50)) = map (\<lambda>t. (t, Fin 0)) NIFTY50"
    unfolding price_map_short_history vol_scores_def
    by (simp add: filter_map comp_def u vol_short)
  then show ?thesis unfolding vol_list_def using sort_by_sorted_id[OF sorted_constant_keys, of NIFTY50] by simp
qed

lemma no_survivor_short_history:
  "filter survives (price_map (fetch_all short_history NIFTY50)) = []"
proof -
  have "\<not> survives (t, weekday_frame 39 (\<lambda>i. 5))" for t
    by (simp add: survives_def column_weekday_frame dropna_replicate_Fin)
  then show ?thesis unfolding price_map_short_history by (simp add: filter_map comp_def)
qed


text \<open>
  Claim C6.  The claim is for every run, and it fails on a run in which no ticker survives
  the filters.  With the provider \<open>short_history\<close> every ticker has 39 daily observations of
  a constant price: all 45 tickers are scored, with volatility 0, and every one of them is
  skipped by the test on the 40 daily observations.  The number of survivors is 0, and the run
  does not return the table of \<open>min 10 0 = 0\<close> rows: \<open>sort_values\<close> raises \<open>KeyError\<close> on the
  table without columns, before the test \<^verbatim>\<open>if df.empty: return df\<close> that was written for
  this case.
\<close>

theorem no_survivor_no_output:
  "price_map (fetch_all short_history NIFTY50)
     = map (\<lambda>t. (t, weekday_frame 39 (\<lambda>i. 5))) NIFTY50
   \<and> length (dropna (column ''Close'' (weekday_frame 39 (\<lambda>i. 5)))) = 39
   \<and> vol_list (price_map (fetch_all short_history NIFTY50)) = map (\<lambda>t. (t, Fin 0)) NIFTY50
   \<and> filter survives (price_map (fetch_all short_history NIFTY50)) = []
   \<and> min N_CARDS (length (filter survives (price_map (fetch_all short_history NIFTY50)))) = 0
   \<and> analyze_universe short_history = Inl (KeyError ''volatility'')"
proof -
  let ?pm = "price_map (fetch_all short_history NIFTY50)"
  have d: "distinct (map fst ?pm)" by (rule distinct_fetch_all)
  have l: "length (dropna (column ''Close'' (weekday_frame 39 (\<lambda>i. 5)))) = 39"
    by (simp add: column_weekday_frame dropna_replicate_Fin)
  have "selected short_history ?pm = []"
    using selected_Nil_iff[OF d, of short_history] no_survivor_short_history by simp
  then have a: "analyze_universe short_history = Inl (KeyError ''volatility'')"
    unfolding analyze_universe_def by (rule analyze_no_candidates)
  have m: "min N_CARDS (length (filter survives ?pm)) = 0"
    unfolding no_survivor_short_history by simp
  show ?thesis
    using price_map_short_history l vol_list_short_history no_survivor_short_history m a
    by blast
qed


section \<open>Constant prices in the pipeline\<close>

lemma ewma_zeros:
  assumes "k < n"
  shows "ewma (1 / real RSI_PERIOD) (replicate n 0) ! k = 0"
proof -
  have "(ewma (1 / real RSI_PERIOD) (replicate n 0) ! k = 0) = (\<forall>j\<le>k. replicate n (0::real) ! j = 0)"
    using assms by (intro ewma_zero_iff[OF alpha_bounds]) simp_all
  then show ?thesis using assms by simp
qed

lemma deltas_replicate: "deltas (replicate n c) = replicate (n - 1) 0"
proof (rule nth_equalityI)
  show "length (deltas (replicate n c)) = length (replicate (n - 1) (0::real))" by simp
next
  fix i assume "i < length (deltas (replicate n c))"
  then have i: "Suc i < n" by simp
  then have "deltas (replicate n c) ! i = replicate n c ! Suc i - replicate n c ! i"
    by (intro deltas_nth) simp
  then show "deltas (replicate n c) ! i = replicate (n - 1) 0 ! i" using i by simp
qed

lemma smoothed_averages_constant:
  assumes "2 \<le> n"
  shows "last (avg_up RSI_PERIOD (replicate n (Fin c))) = Fin 0"
    and "last (avg_down RSI_PERIOD (replicate n (Fin c))) = Fin 0"
proof -
  obtain m where n: "n = Suc (Suc m)" using assms by (metis Suc_le_D numeral_2_eq_2 Suc_le_mono)
  let ?a = "1 / real RSI_PERIOD"
  have r: "replicate n (Fin c) = map Fin (c # replicate (Suc m) c)" by (simp add: n)
  have u: "ups (c # replicate (Suc m) c) = replicate (Suc m) 0"
    using deltas_replicate[of n c] by (simp add: ups_def n)
  have d: "downs (c # replicate (Suc m) c) = replicate (Suc m) 0"
    using deltas_replicate[of n c] by (simp add: downs_def n)
  have l: "length (ewma ?a (replicate (Suc m) 0)) = Suc m"
    by (simp only: length_ewma length_replicate)
  have ne: "ewma ?a (replicate (Suc m) 0) \<noteq> []"
  proof
    assume "ewma ?a (replicate (Suc m) 0) = []"
    then have "length (ewma ?a (replicate (Suc m) 0)) = 0" by (simp only: list.size)
    then show False using l by simp
  qed
  have "last (ewma ?a (replicate (Suc m) 0)) = ewma ?a (replicate (Suc m) 0) ! m"
    using last_conv_nth[OF ne] l by simp
  also have "\<dots> = 0" by (rule ewma_zeros) simp
  finally have z: "last (ewma ?a (replicate (Suc m) 0)) = 0" .
  show "last (avg_up RSI_PERIOD (replicate n (Fin c))) = Fin 0"
    unfolding r avg_up_Fin u using ne z by (simp add: last_map)
  show "last (avg_down RSI_PERIOD (replicate n (Fin c))) = Fin 0"
    unfolding r avg_down_Fin d using ne z by (simp add: last_map)
qed

lemma vol_scores_memI:
  assumes "(tk, df) \<in> set pm" "\<not> unusable df" "\<not> isnan (annual_vol (column ''Close'' df))"
  shows "(tk, annual_vol (column ''Close'' df)) \<in> set (vol_scores pm)"
proof -
  have "(tk, df) \<in> set (filter (\<lambda>(tk, df). \<not> unusable df) pm)" using assms(1,2) by simp
  then have "(tk, annual_vol (column ''Close'' df)) \<in>
        set (map (\<lambda>(tk, df). (tk, annual_vol (column ''Close'' df)))
               (filter (\<lambda>(tk, df). \<not> unusable df) pm))"
    by (metis (mono_tags, lifting) image_eqI list.set_map old.prod.case)
  then show ?thesis using assms(3) by (simp add: vol_scores_def)
qed


section \<open>Weekly observations of trading days\<close>

text \<open>
  A calendar week has five trading days, so a column with 40 observations on distinct trading
  days has observations in at least 8 calendar weeks, and the weekly resample has an
  observation for each of them.
\<close>

lemma last_valid_not_nan:
  assumes "x \<in> set xs" "\<not> isnan x"
  shows "\<not> isnan (last_valid xs)"
proof -
  have "x \<in> set (dropna xs)" using assms by (simp add: dropna_def)
  then obtain y ys where r: "rev (dropna xs) = y # ys" by (cases "rev (dropna xs)") auto
  then have "y \<in> set (dropna xs)" by (metis list.set_intros(1) set_rev)
  then have "\<not> isnan y" by (simp add: dropna_def)
  then show ?thesis using r by (simp add: last_valid_def)
qed

lemma week_of_mono: "a \<le> b \<Longrightarrow> week_of a \<le> week_of b"
  by (simp add: week_of_def zdiv_mono1)

lemma sorted_hd_last:
  assumes "sorted xs" "x \<in> set xs"
  shows "hd xs \<le> x" "x \<le> last xs"
proof -
  obtain i where i: "i < length xs" "xs ! i = x" using assms(2) by (auto simp: in_set_conv_nth)
  have ne: "xs \<noteq> []" using assms(2) by auto
  have "xs ! 0 \<le> xs ! i" using assms(1) i(1) by (simp add: sorted_iff_nth_mono)
  then show "hd xs \<le> x" using i(2) ne by (simp add: hd_conv_nth)
  have "xs ! i \<le> xs ! (length xs - 1)" using assms(1) i(1) by (simp add: sorted_iff_nth_mono)
  then show "x \<le> last xs" using i(2) ne by (simp add: last_conv_nth)
qed

lemma column_resample_eq:
  assumes "rows df \<noteq> []"
  shows "column c (resample_W_last df) =
           map (\<lambda>w. last_valid (map (\<lambda>(d, r). r c)
                        (filter (\<lambda>(d, r). week_of d = w) (sort_key fst (rows df)))))
               [week_of (fst (hd (sort_key fst (rows df)))) ..
                week_of (fst (last (sort_key fst (rows df))))]"
proof -
  have "sort_key fst (rows df) \<noteq> []" using assms by (metis length_0_conv length_sort)
  then obtain r0 rs' where r: "sort_key fst (rows df) = r0 # rs'"
    by (cases "sort_key fst (rows df)") auto
  show ?thesis
    unfolding resample_W_last_def Let_def r column_def by (simp add: comp_def)
qed

lemma week_in_range:
  assumes "(d, r) \<in> set (rows df)"
  shows "week_of d \<in> set [week_of (fst (hd (sort_key fst (rows df)))) ..
                          week_of (fst (last (sort_key fst (rows df))))]"
proof -
  let ?rs = "sort_key fst (rows df)"
  have s: "sorted (map fst ?rs)" by (rule sorted_sort_key)
  have m: "d \<in> set (map fst ?rs)" using assms by force
  have mem: "(d, r) \<in> set ?rs" using assms by simp
  have ne: "?rs \<noteq> []" using mem by (metis empty_iff empty_set)
  have "hd (map fst ?rs) \<le> d" "d \<le> last (map fst ?rs)"
    using sorted_hd_last[OF s m] by simp_all
  then have "fst (hd ?rs) \<le> d" "d \<le> fst (last ?rs)"
    using ne by (simp_all add: hd_map last_map)
  then show ?thesis using week_of_mono by simp
qed

lemma weekly_cell_defined:
  assumes "(d, r) \<in> set (rows df)" "\<not> isnan (r c)"
  shows "\<not> isnan (last_valid (map (\<lambda>(d, r). r c)
           (filter (\<lambda>(d', r). week_of d' = week_of d) (sort_key fst (rows df)))))"
proof -
  have "(d, r) \<in> set (filter (\<lambda>(d', r). week_of d' = week_of d) (sort_key fst (rows df)))"
    using assms(1) by simp
  then have "r c \<in> set (map (\<lambda>(d, r). r c)
           (filter (\<lambda>(d', r). week_of d' = week_of d) (sort_key fst (rows df))))"
    by force
  then show ?thesis using assms(2) by (rule last_valid_not_nan)
qed

lemma length_dropna_map: "length (dropna (map f ws)) = length (filter (\<lambda>w. \<not> isnan (f w)) ws)"
  by (induction ws) (simp_all add: dropna_def)

lemma weeks_le_weekly:
  "card (week_of ` observed_days c df) \<le> length (dropna (column c (resample_W_last df)))"
proof (cases "rows df = []")
  case True
  then show ?thesis by (simp add: observed_days_def)
next
  case False
  let ?rs = "sort_key fst (rows df)"
  let ?ws = "[week_of (fst (hd ?rs)) .. week_of (fst (last ?rs))]"
  let ?g = "\<lambda>w. last_valid (map (\<lambda>(d, r). r c) (filter (\<lambda>(d, r). week_of d = w) ?rs))"
  have len: "length (dropna (column c (resample_W_last df))) = length (filter (\<lambda>w. \<not> isnan (?g w)) ?ws)"
    unfolding column_resample_eq[OF False] by (rule length_dropna_map)
  have dist: "distinct (filter (\<lambda>w. \<not> isnan (?g w)) ?ws)" by simp
  have sub: "week_of ` observed_days c df \<subseteq> set (filter (\<lambda>w. \<not> isnan (?g w)) ?ws)"
  proof
    fix w assume "w \<in> week_of ` observed_days c df"
    then obtain d r where dr: "(d, r) \<in> set (rows df)" "\<not> isnan (r c)" "w = week_of d"
      by (auto simp: observed_days_def)
    have "w \<in> set ?ws" unfolding dr(3) by (rule week_in_range[OF dr(1)])
    moreover have "\<not> isnan (?g w)" unfolding dr(3) by (rule weekly_cell_defined[OF dr(1,2)])
    ultimately show "w \<in> set (filter (\<lambda>w. \<not> isnan (?g w)) ?ws)" by simp
  qed
  have "card (week_of ` observed_days c df) \<le> card (set (filter (\<lambda>w. \<not> isnan (?g w)) ?ws))"
    by (rule card_mono[OF finite_set sub])
  also have "\<dots> = length (filter (\<lambda>w. \<not> isnan (?g w)) ?ws)"
    by (rule distinct_card[OF dist])
  finally show ?thesis unfolding len .
qed

lemma weekday_in_week:
  assumes "weekday d"
  shows "d \<in> {7 * week_of d - 3 .. 7 * week_of d + 1}"
proof -
  have "7 * ((d + 3) div 7) - 3 \<le> d \<and> d \<le> 7 * ((d + 3) div 7) + 1"
    using assms unfolding weekday_def by presburger
  then show ?thesis unfolding week_of_def by simp
qed

lemma card_weekdays:
  fixes D :: "int set"
  assumes "finite D" "\<forall>d\<in>D. weekday d"
  shows "card D \<le> 5 * card (week_of ` D)"
proof -
  let ?W = "week_of ` D"
  have fW: "finite ?W" using assms(1) by simp
  have sub: "D \<subseteq> (\<Union>w\<in>?W. {7 * w - 3 .. 7 * w + 1})"
    using assms(2) weekday_in_week by blast
  have fU: "finite (\<Union>w\<in>?W. {7 * w - 3 .. 7 * w + 1})"
    by (rule finite_UN_I[OF fW]) simp
  have "card D \<le> card (\<Union>w\<in>?W. {7 * w - 3 .. 7 * w + 1})"
    by (rule card_mono[OF fU sub])
  also have "\<dots> \<le> (\<Sum>w\<in>?W. card {7 * w - 3 .. 7 * w + 1})"
    by (rule card_UN_le[OF fW])
  also have "\<dots> = 5 * card ?W" by simp
  finally show ?thesis .
qed

lemma card_observed_days:
  assumes "distinct (map fst (rows df))"
  shows "card (observed_days c df) = length (dropna (column c df))"
proof -
  let ?P = "\<lambda>x. \<not> isnan (snd x c)"
  have col: "column c df = map (\<lambda>x. snd x c) (rows df)" by (simp add: column_def split_def)
  have len: "length (dropna (column c df)) = length (filter ?P (rows df))"
    unfolding col by (rule length_dropna_map)
  have od: "observed_days c df = set (map fst (filter ?P (rows df)))"
    by (auto simp: observed_days_def)
  have di: "distinct (map fst (filter ?P (rows df)))"
    using assms by (rule distinct_map_filter)
  have "card (observed_days c df) = length (map fst (filter ?P (rows df)))"
    unfolding od by (rule distinct_card[OF di])
  then show ?thesis using len by simp
qed

lemma weekly_at_least_8:
  assumes "distinct (map fst (rows df))" "\<forall>d\<in>set (map fst (rows df)). weekday d"
    and "40 \<le> length (dropna (column c df))"
  shows "8 \<le> length (dropna (column c (resample_W_last df)))"
proof -
  let ?D = "observed_days c df"
  have fin: "finite ?D" by (simp add: observed_days_def)
  have wd: "\<forall>d\<in>?D. weekday d" using assms(2) by (auto simp: observed_days_def)
  have "40 \<le> card ?D" using card_observed_days[OF assms(1), of c] assms(3) by simp
  also have "\<dots> \<le> 5 * card (week_of ` ?D)" by (rule card_weekdays[OF fin wd])
  also have "\<dots> \<le> 5 * length (dropna (column c (resample_W_last df)))"
    using weeks_le_weekly[of c df] by simp
  finally show ?thesis by simp
qed

section \<open>The rank of a ticker of volatility zero\<close>

text \<open>
  A volatility is never negative, so the tickers of volatility 0 lead the sorted list, in
  the order of the dictionary (the sort is stable).  Such a ticker is reached by the loop
  unless \<open>N_CARDS\<close> tickers of volatility 0 that survive the filters precede it in the
  dictionary.
\<close>

lemma fl_le_antisym: "fl_le a b \<Longrightarrow> fl_le b a \<Longrightarrow> a = b"
  by (cases a; cases b) simp_all

lemma fl_sqrt_nonneg: "\<not> isnan (fl_sqrt x) \<Longrightarrow> fl_le (Fin 0) (fl_sqrt x)"
  by (cases x) (simp_all split: if_splits)

lemma fl_mul_pos_nonneg:
  assumes "fl_le (Fin 0) a" "0 < b"
  shows "fl_le (Fin 0) (fl_mul a (Fin b))"
  using assms by (cases a) (simp_all add: signed_inf_def)

lemma annual_vol_nonneg:
  assumes "\<not> isnan (annual_vol s)"
  shows "fl_le (Fin 0) (annual_vol s)"
proof -
  let ?r = "dropna (fl_log_returns (recent 252 (dropna s)))"
  have e: "annual_vol s = fl_mul (std_ddof0 ?r) (Fin (sqrt 252))"
    using assms unfolding annual_vol_by_position by (simp split: if_splits)
  have "\<not> isnan (std_ddof0 ?r)"
    using assms unfolding e by (cases "std_ddof0 ?r") simp_all
  then have "fl_le (Fin 0) (std_ddof0 ?r)"
    unfolding std_ddof0_def Let_def by (rule fl_sqrt_nonneg)
  then show ?thesis unfolding e by (rule fl_mul_pos_nonneg) simp
qed

lemma sorted_zero_prefix:
  assumes "sorted_wrt (\<lambda>a b. fl_le (k a) (k b)) ys" "\<forall>y\<in>set ys. fl_le (Fin 0) (k y)"
  shows "ys = filter (\<lambda>y. k y = Fin 0) ys @ filter (\<lambda>y. k y \<noteq> Fin 0) ys"
  using assms
proof (induction ys)
  case Nil
  then show ?case by simp
next
  case (Cons y ys)
  have IH: "ys = filter (\<lambda>y. k y = Fin 0) ys @ filter (\<lambda>y. k y \<noteq> Fin 0) ys"
    using Cons by simp
  show ?case
  proof (cases "k y = Fin 0")
    case True
    then show ?thesis using IH by simp
  next
    case False
    have "k z \<noteq> Fin 0" if "z \<in> set ys" for z
    proof
      assume z: "k z = Fin 0"
      have "fl_le (k y) (k z)" using Cons.prems(1) that by simp
      moreover have "fl_le (Fin 0) (k y)" using Cons.prems(2) by simp
      ultimately have "k y = Fin 0" unfolding z by (rule fl_le_antisym)
      then show False using False by simp
    qed
    then have "filter (\<lambda>y. k y = Fin 0) ys = []" "filter (\<lambda>y. k y \<noteq> Fin 0) ys = ys"
      by (simp_all add: filter_empty_conv filter_id_conv)
    then show ?thesis using False by simp
  qed
qed

lemma vol_scores_append: "vol_scores (xs @ ys) = vol_scores xs @ vol_scores ys"
  by (simp add: vol_scores_def)

lemma map_filter_append:
  "List.map_filter f (xs @ ys) = List.map_filter f xs @ List.map_filter f ys"
  by (simp add: List.map_filter_def)

lemma vol_list_zero_prefix:
  "vol_list pm = filter (\<lambda>e. snd e = Fin 0) (vol_scores pm)
                 @ filter (\<lambda>e. snd e \<noteq> Fin 0) (vol_list pm)"
proof -
  have nn: "\<forall>e\<in>set (vol_list pm). fl_le (Fin 0) (snd e)"
  proof
    fix e assume "e \<in> set (vol_list pm)"
    then have "e \<in> set (vol_scores pm)" by (simp add: vol_list_def set_sort_by)
    then obtain df where "snd e = annual_vol (column ''Close'' df)" "\<not> isnan (snd e)"
      using vol_scores_mem by blast
    then show "fl_le (Fin 0) (snd e)" using annual_vol_nonneg by simp
  qed
  have "vol_list pm = filter (\<lambda>e. snd e = Fin 0) (vol_list pm)
                      @ filter (\<lambda>e. snd e \<noteq> Fin 0) (vol_list pm)"
    by (rule sorted_zero_prefix[OF sorted_vol_list nn])
  moreover have "filter (\<lambda>e. snd e = Fin 0) (vol_list pm)
                 = filter (\<lambda>e. snd e = Fin 0) (vol_scores pm)"
    unfolding vol_list_def by (rule sort_by_stable)
  ultimately show ?thesis by simp
qed

lemma dict_split:
  assumes "distinct (map fst pm)" "(tk, df) \<in> set pm"
  shows "pm = takeWhile (\<lambda>e. fst e \<noteq> tk) pm @ (tk, df) # tl (dropWhile (\<lambda>e. fst e \<noteq> tk) pm)"
proof -
  let ?P = "\<lambda>e. fst e \<noteq> tk"
  have "\<not> (\<forall>e\<in>set pm. ?P e)" using assms(2) by force
  then have ne: "dropWhile ?P pm \<noteq> []" unfolding dropWhile_eq_Nil_conv .
  obtain k v es where d: "dropWhile ?P pm = (k, v) # es"
    using ne by (cases "dropWhile ?P pm") auto
  have "\<not> ?P (hd (dropWhile ?P pm))" using ne by (rule hd_dropWhile)
  then have k: "k = tk" unfolding d by simp
  have "(k, v) \<in> set (dropWhile ?P pm)" unfolding d by simp
  then have "(k, v) \<in> set pm" by (rule set_dropWhileD)
  then have "(tk, v) \<in> set pm" unfolding k .
  then have "v = df" using assms(2) by (rule eq_key_imp_eq_value[OF assms(1)])
  then have e: "dropWhile ?P pm = (tk, df) # tl (dropWhile ?P pm)" unfolding d k by simp
  have "pm = takeWhile ?P pm @ dropWhile ?P pm" by simp
  then show ?thesis using e by metis
qed

lemma in_take_append:
  assumes "length xs < n"
  shows "x \<in> set (take n (xs @ x # ys))"
proof -
  have "take n (xs @ x # ys) = xs @ take (n - length xs) (x # ys)" using assms by simp
  moreover obtain m where "n - length xs = Suc m" using assms by (cases "n - length xs") auto
  ultimately show ?thesis by simp
qed

lemma ranked_candidate_selected:
  assumes dist: "distinct (map fst pm)" and mem: "(tk, df) \<in> set pm"
    and u: "\<not> unusable df" and vol: "annual_vol (column ''Close'' df) = Fin 0"
    and sel: "select_one p pm (tk, Fin 0) = Some cand"
    and few: "length (filter (\<lambda>e. survives e \<and> annual_vol (column ''Close'' (snd e)) = Fin 0)
                      (takeWhile (\<lambda>e. fst e \<noteq> tk) pm)) < N_CARDS"
  shows "cand \<in> set (selected p pm)"
proof -
  define before where "before = takeWhile (\<lambda>e. fst e \<noteq> tk) pm"
  define after where "after = tl (dropWhile (\<lambda>e. fst e \<noteq> tk) pm)"
  define f where "f = select_one p pm"
  have split: "pm = before @ (tk, df) # after"
    unfolding before_def after_def by (rule dict_split[OF dist mem])
  have one: "vol_scores [(tk, df)] = [(tk, Fin 0)]"
    by (simp add: vol_scores_def u vol)
  have "vol_scores pm = vol_scores (before @ [(tk, df)] @ after)"
    using split by simp
  then have vs: "vol_scores pm = vol_scores before @ (tk, Fin 0) # vol_scores after"
    unfolding vol_scores_append one by simp
  define Z where "Z = filter (\<lambda>e. snd e = Fin 0) (vol_scores before)"
  define R where "R = filter (\<lambda>e. snd e = Fin 0) (vol_scores after)
                      @ filter (\<lambda>e. snd e \<noteq> Fin 0) (vol_list pm)"
  have "filter (\<lambda>e. snd e = Fin 0) (vol_scores pm)
        = Z @ (tk, Fin 0) # filter (\<lambda>e. snd e = Fin 0) (vol_scores after)"
    unfolding vs Z_def by simp
  then have vl: "vol_list pm = Z @ (tk, Fin 0) # R"
    using vol_list_zero_prefix[of pm] unfolding R_def by simp
  have mf: "List.map_filter f (vol_list pm)
            = List.map_filter f Z @ cand # List.map_filter f R"
    unfolding vl map_filter_append using sel by (simp add: List.map_filter_simps f_def)
  have sub: "set before \<subseteq> set pm"
    unfolding before_def by (auto dest: set_takeWhileD)
  have "length (List.map_filter f Z) = length (filter (\<lambda>e. f e \<noteq> None) Z)"
    by (rule length_map_filter)
  also have "\<dots> = length (filter (\<lambda>e. snd e = Fin 0 \<and> f e \<noteq> None) (vol_scores before))"
    unfolding Z_def by (simp add: conj_commute)
  also have "\<dots> = length (filter (\<lambda>x. \<not> unusable (snd x)
                        \<and> \<not> isnan (annual_vol (column ''Close'' (snd x)))
                        \<and> (snd (fst x, annual_vol (column ''Close'' (snd x))) = Fin 0
                           \<and> f (fst x, annual_vol (column ''Close'' (snd x))) \<noteq> None)) before)"
    by (rule length_filter_vol_scores)
  also have "\<dots> = length (filter (\<lambda>e. survives e \<and> annual_vol (column ''Close'' (snd e)) = Fin 0)
                             before)"
  proof -
    have "(\<not> unusable (snd x)
             \<and> \<not> isnan (annual_vol (column ''Close'' (snd x)))
             \<and> (snd (fst x, annual_vol (column ''Close'' (snd x))) = Fin 0
                \<and> f (fst x, annual_vol (column ''Close'' (snd x))) \<noteq> None))
          = (survives x \<and> annual_vol (column ''Close'' (snd x)) = Fin 0)" if "x \<in> set before" for x
    proof -
      have "(fst x, snd x) \<in> set pm" using that sub by auto
      then have "dict_get pm (fst x) empty_frame = snd x"
        by (rule dict_get_distinct[OF dist])
      then show ?thesis
        unfolding f_def by (auto simp: select_one_None_iff survives_def not_less)
    qed
    then have "filter (\<lambda>x. \<not> unusable (snd x)
                        \<and> \<not> isnan (annual_vol (column ''Close'' (snd x)))
                        \<and> (snd (fst x, annual_vol (column ''Close'' (snd x))) = Fin 0
                           \<and> f (fst x, annual_vol (column ''Close'' (snd x))) \<noteq> None)) before
          = filter (\<lambda>e. survives e \<and> annual_vol (column ''Close'' (snd e)) = Fin 0) before"
      by (intro filter_cong refl) blast
    then show ?thesis by simp
  qed
  finally have "length (List.map_filter f Z) < N_CARDS"
    using few unfolding before_def by simp
  then have "cand \<in> set (take N_CARDS (List.map_filter f Z @ cand # List.map_filter f R))"
    by (rule in_take_append)
  then show ?thesis unfolding selected_take f_def[symmetric] mf .
qed




section \<open>A run on a market where every price is constant\<close>

lemma stored_all_flat: "stored all_flat all_flat_raw t = weekday_frame 40 (\<lambda>i. 5)"
  by (simp add: stored_def all_flat_def all_flat_raw_def dropna_all_weekday_frame)

lemma price_map_all_flat:
  "price_map (fetch_all all_flat NIFTY50) = map (\<lambda>t. (t, weekday_frame 40 (\<lambda>i. 5))) NIFTY50"
proof -
  have d: "download all_flat NIFTY50 = Inr all_flat_raw" by (simp add: all_flat_def)
  have l: "length NIFTY50 \<noteq> 1" by (simp add: length_NIFTY50)
  show ?thesis
    unfolding price_map_in_order[OF d l distinct_NIFTY50] stored_all_flat ..
qed

lemma vol_scores_all_flat:
  "vol_scores (price_map (fetch_all all_flat NIFTY50)) = map (\<lambda>t. (t, Fin 0)) NIFTY50"
proof -
  have u: "\<not> unusable (weekday_frame 40 (\<lambda>i. 5))" by (rule usable_weekday_frame) simp
  show ?thesis
    unfolding price_map_all_flat vol_scores_def
    by (simp add: filter_map comp_def u vol_flat)
qed

lemma vol_list_all_flat:
  "vol_list (price_map (fetch_all all_flat NIFTY50)) = map (\<lambda>t. (t, Fin 0)) NIFTY50"
  unfolding vol_list_def vol_scores_all_flat by (rule sort_by_sorted_id[OF sorted_constant_keys])

lemma mem_all_flat:
  assumes "t \<in> set NIFTY50"
  shows "(t, weekday_frame 40 (\<lambda>i. 5)) \<in> set (price_map (fetch_all all_flat NIFTY50))"
  unfolding price_map_all_flat using assms by simp

lemma select_one_all_flat:
  assumes "t \<in> set NIFTY50"
  shows "select_one all_flat (price_map (fetch_all all_flat NIFTY50)) (t, Fin 0)
           = Some (flat_cand t)"
proof -
  let ?pm = "price_map (fetch_all all_flat NIFTY50)"
  let ?W = "weekday_frame 40 (\<lambda>i. 5)"
  have g: "dict_get ?pm t empty_frame = ?W"
    by (rule dict_get_distinct[OF distinct_fetch_all mem_all_flat[OF assms]])
  have u: "\<not> unusable ?W" by (rule usable_weekday_frame) simp
  have d: "dropna (column ''Close'' ?W) = replicate 40 (Fin 5)"
    by (simp add: column_weekday_frame dropna_replicate_Fin)
  have w: "8 \<le> length (dropna (column ''Close'' (resample_W_last ?W)))"
    by (simp add: weekly_weekday_40)
  have n: "company_name all_flat t = []"
    by (simp add: company_name_def all_flat_def)
  show ?thesis
    using select_one_constant[OF g u d _ w, of all_flat "Fin 0"] n
    by (simp add: flat_cand_def)
qed

lemma map_filter_map_Some:
  "(\<And>x. x \<in> set xs \<Longrightarrow> f (g x) = Some (h x)) \<Longrightarrow> List.map_filter f (map g xs) = map h xs"
  by (induction xs) (simp_all add: List.map_filter_simps)

lemma first_ten:
  "take 10 NIFTY50 =
     [''RELIANCE.NS'', ''TCS.NS'', ''HDFCBANK.NS'', ''INFY.NS'', ''ICICIBANK.NS'',
      ''KOTAKBANK.NS'', ''LT.NS'', ''ITC.NS'', ''SBIN.NS'', ''HCLTECH.NS'']"
  by (simp add: NIFTY50_def)

lemma with_signal_flat_cand: "with_signal (flat_cand t) = flat_card t"
  by (simp add: with_signal_def flat_cand_def flat_card_def signal_of_NaN)

lemma analyze_universe_all_flat:
  "analyze_universe all_flat =
     Inr (map flat_card
            [''RELIANCE.NS'', ''TCS.NS'', ''HDFCBANK.NS'', ''INFY.NS'', ''ICICIBANK.NS'',
             ''KOTAKBANK.NS'', ''LT.NS'', ''ITC.NS'', ''SBIN.NS'', ''HCLTECH.NS''])"
proof -
  let ?pm = "price_map (fetch_all all_flat NIFTY50)"
  have "List.map_filter (select_one all_flat ?pm) (map (\<lambda>t. (t, Fin 0)) NIFTY50)
        = map flat_cand NIFTY50"
    by (rule map_filter_map_Some) (rule select_one_all_flat)
  then have "selected all_flat ?pm = map flat_cand (take 10 NIFTY50)"
    unfolding selected_take vol_list_all_flat by (simp add: take_map N_CARDS_def)
  then have s: "selected all_flat ?pm = map flat_cand
            [''RELIANCE.NS'', ''TCS.NS'', ''HDFCBANK.NS'', ''INFY.NS'', ''ICICIBANK.NS'',
             ''KOTAKBANK.NS'', ''LT.NS'', ''ITC.NS'', ''SBIN.NS'', ''HCLTECH.NS'']"
    unfolding first_ten .
  show ?thesis
    unfolding analyze_universe_def analyze_eq s by (simp add: with_signal_flat_cand)
qed

lemma before_HCLTECH:
  "takeWhile (\<lambda>e. fst e \<noteq> ''HCLTECH.NS'') (price_map (fetch_all all_flat NIFTY50))
     = map (\<lambda>t. (t, weekday_frame 40 (\<lambda>i. 5)))
         [''RELIANCE.NS'', ''TCS.NS'', ''HDFCBANK.NS'', ''INFY.NS'', ''ICICIBANK.NS'',
          ''KOTAKBANK.NS'', ''LT.NS'', ''ITC.NS'', ''SBIN.NS'']"
  unfolding price_map_all_flat by (simp add: NIFTY50_def)

lemma weekday_frame_dates:
  "distinct (map fst (rows (weekday_frame 40 (\<lambda>i. 5))))"
  "list_all weekday (map fst (rows (weekday_frame 40 (\<lambda>i. 5))))"
  by code_simp+






section \<open>Alignment and rounding of the RSI\<close>

text \<open>
  Claim C9, as amended.  The output of \<open>rsi\<close> has as many points as the cleaned input, not
  one fewer: it is aligned with the input, and its leading point, which has no difference
  behind it, is \<open>NaN\<close>.  The selector takes the latest daily and weekly values and rounds
  them to 2 decimal digits: a finite value becomes a multiple of \<open>1/100\<close> at most \<open>1/200\<close>
  away, and \<open>NaN\<close> stays \<open>NaN\<close>.
\<close>

theorem rsi_alignment_and_rounding:
  "length (rsi s) = length (dropna s)
   \<and> (dropna s \<noteq> [] \<longrightarrow> rsi s ! 0 = NaN)
   \<and> (select_one p pm e = Some k \<longrightarrow>
        daily_rsi k = round2 (last (rsi (dropna (column ''Close'' (dict_get pm (fst e) empty_frame)))))
        \<and> weekly_rsi k =
            round2 (last (rsi (dropna (column ''Close''
                       (resample_W_last (dict_get pm (fst e) empty_frame)))))))
   \<and> (\<exists>m::int. round2 (Fin x) = Fin (of_int m / 100) \<and> \<bar>of_int m / 100 - x\<bar> \<le> 1 / 200)
   \<and> round2 NaN = NaN"
  using length_rsi[of s] rsi_first_NaN[of s] select_one_SomeD(7,8)[of p pm e k] round2_Fin[of x]
  by simp

lemma select_one_late_move:
  "map_option (\<lambda>k. (daily_rsi k, weekly_rsi k))
     (select_one outage [(''Z'', late_move_frame)] (''Z'', Fin 1))
     = Some (Fin (6673 / 100), Fin 100)"
  by code_simp


text \<open>
  A witness: two prices, and the table \<open>late_move_frame\<close>, whose latest daily RSI
  \<open>36500/547\<close> is taken as 66.73.
\<close>

theorem rsi_alignment_and_rounding_witness:
  "dropna [Fin 1, Fin 2] \<noteq> []
   \<and> rsi [Fin 1, Fin 2] ! 0 = NaN
   \<and> select_one outage [(''Z'', late_move_frame)] (''Z'', Fin 1) \<noteq> None
   \<and> round2 (last (rsi (dropna (column ''Close''
         (dict_get [(''Z'', late_move_frame)] ''Z'' empty_frame))))) = Fin (6673 / 100)
   \<and> round2 (last (rsi (dropna (column ''Close''
         (resample_W_last (dict_get [(''Z'', late_move_frame)] ''Z'' empty_frame)))))) = Fin 100"
proof -
  obtain k where k: "select_one outage [(''Z'', late_move_frame)] (''Z'', Fin 1) = Some k"
    "daily_rsi k = Fin (6673 / 100)" "weekly_rsi k = Fin 100"
    using select_one_late_move by auto
  have ne: "dropna [Fin 1, Fin 2] \<noteq> []" by (simp add: dropna_def)
  note t = rsi_alignment_and_rounding[of "[Fin 1, Fin 2]" outage "[(''Z'', late_move_frame)]"
      "(''Z'', Fin 1)" k]
  have "rsi [Fin 1, Fin 2] ! 0 = NaN" using t ne by blast
  moreover have "daily_rsi k = round2 (last (rsi (dropna (column ''Close''
         (dict_get [(''Z'', late_move_frame)] ''Z'' empty_frame)))))"
    using t k(1) by simp
  moreover have "weekly_rsi k = round2 (last (rsi (dropna (column ''Close''
         (resample_W_last (dict_get [(''Z'', late_move_frame)] ''Z'' empty_frame))))))"
    using t k(1) by simp
  ultimately show ?thesis using ne k by simp
qed


text \<open>
  Claim C9 as stated fails: for two equal prices the output has two points, not one, and
  none of them is defined.
\<close>

theorem rsi_alignment_counterexample:
  "length (rsi [Fin 7, Fin 7]) = 2
   \<and> length (dropna (rsi [Fin 7, Fin 7])) = 0
   \<and> length (dropna [Fin 7, Fin 7]) - 1 = 1"
  by (simp add: series_eval)


end
